theory Spec2Isabelle
  imports Complex_Main
begin

section \<open>Panorama blending (blend.py): data model\<close>

text \<open>
  The development embeds \<^verbatim>\<open>blend.py\<close>: the bounding box of a warped image, the
  bilinear sampler, the blend accumulator, the normaliser, the canvas geometry, the
  compositor, the drift parameters and the top-level \<^verbatim>\<open>blendImages\<close>.

  Numbers. Python integers are \<^typ>\<open>int\<close>. The float64 (and, inside OpenCV, float32)
  values of the source are idealised as exact rationals (\<^typ>\<open>rat\<close>): sums, products
  and quotients are the exact ones, without rounding. The only non-finite values the
  source can produce from finite ones without overflow come from numpy's division by
  zero; they are kept, as \<open>PosInf\<close>, \<open>NegInf\<close> and \<open>NotANumber\<close>.

  What the idealisation leaves out. A float64 result of the source is the exact result
  rounded to 53 significant bits, and \<^verbatim>\<open>cv2.perspectiveTransform\<close> returns float32 values
  (24 bits); a value computed here is the value of the source exactly when every
  intermediate result is representable (integers below 2^24 in magnitude, dyadic
  fractions of few bits), and up to that rounding otherwise. A float32 beyond its range
  is an infinity, on which \<^verbatim>\<open>int\<close> raises; the finite values here never overflow.

  Exceptions are values: a function of the source that can raise returns
  \<open>error + 'a\<close>, with \<open>Inl\<close> the exception.
\<close>

datatype error =
    LinAlgError          \<comment> \<open>numpy.linalg.LinAlgError: singular matrix\<close>
  | IndexError           \<comment> \<open>index out of bounds for an axis\<close>
  | ValueError           \<comment> \<open>negative dimensions, broadcast failure, int(nan)\<close>
  | OverflowError        \<comment> \<open>int(inf)\<close>
  | ZeroDivisionError    \<comment> \<open>Python int / int with a zero divisor\<close>
  | UnboundLocalError    \<comment> \<open>a local variable read before assignment\<close>
  | CvError              \<comment> \<open>cv2.error: an OpenCV assertion failed\<close>
  | PyException string   \<comment> \<open>\<^verbatim>\<open>raise Exception(msg)\<close>: the base class, with its message\<close>

text \<open>A float64 value: finite (idealised as a rational) or one of the three special values.\<close>

datatype fl = Finite rat | PosInf | NegInf | NotANumber

text \<open>numpy's float division \<^verbatim>\<open>a / z\<close> of finite values: no exception, inf or nan on a zero divisor.\<close>

definition np_div :: "rat \<Rightarrow> rat \<Rightarrow> fl" where
  "np_div a z =
     (if z = 0 then (if 0 < a then PosInf else if a < 0 then NegInf else NotANumber)
      else Finite (a / z))"

text \<open>IEEE comparisons of a float with a Python integer; every comparison with nan is false.\<close>

fun fl_less :: "fl \<Rightarrow> int \<Rightarrow> bool" where
  "fl_less (Finite r) n = (r < of_int n)"
| "fl_less PosInf n = False"
| "fl_less NegInf n = True"
| "fl_less NotANumber n = False"

fun fl_ge :: "fl \<Rightarrow> int \<Rightarrow> bool" where
  "fl_ge (Finite r) n = (of_int n \<le> r)"
| "fl_ge PosInf n = True"
| "fl_ge NegInf n = False"
| "fl_ge NotANumber n = False"

text \<open>Python's \<^verbatim>\<open>int(v)\<close>: truncation toward zero; it raises on nan and on an infinity.\<close>

definition py_int :: "rat \<Rightarrow> int" where
  "py_int r = (if 0 \<le> r then \<lfloor>r\<rfloor> else \<lceil>r\<rceil>)"

fun py_int_fl :: "fl \<Rightarrow> error + int" where
  "py_int_fl (Finite r) = Inr (py_int r)"
| "py_int_fl PosInf = Inl OverflowError"
| "py_int_fl NegInf = Inl OverflowError"
| "py_int_fl NotANumber = Inl ValueError"

text \<open>\<^verbatim>\<open>sys.maxsize\<close> on a 64-bit build of CPython.\<close>

definition sys_maxsize :: int where
  "sys_maxsize = 2 ^ 63 - 1"

subsection \<open>Arrays and matrices\<close>

text \<open>
  A three-dimensional numpy array (rows, columns, channels): its \<^verbatim>\<open>shape\<close> and its
  cells, \<open>cells a ! y ! x ! c\<close> being \<^verbatim>\<open>a[y, x, c]\<close>. The shape is kept beside the
  cells because numpy keeps it when a dimension is zero.
\<close>

record 'a ndarray =
  shape :: "nat \<times> nat \<times> nat"
  cells :: "'a list list list"

definition wf_arr :: "'a ndarray \<Rightarrow> bool" where
  "wf_arr a =
     (case shape a of (H, W, C) \<Rightarrow>
        length (cells a) = H \<and>
        list_all (\<lambda>row. length row = W \<and> list_all (\<lambda>px. length px = C) row) (cells a))"

text \<open>A 3x3 matrix in row-major order, and a 3-vector.\<close>

datatype mat3 = Mat3 rat rat rat rat rat rat rat rat rat

type_synonym vec3 = "rat \<times> rat \<times> rat"

definition np_identity3 :: mat3 where
  "np_identity3 = Mat3 1 0 0  0 1 0  0 0 1"

text \<open>\<^verbatim>\<open>A.dot(B)\<close> for two 3x3 matrices.\<close>

fun mat_mul :: "mat3 \<Rightarrow> mat3 \<Rightarrow> mat3" where
  "mat_mul (Mat3 a0 a1 a2 a3 a4 a5 a6 a7 a8) (Mat3 b0 b1 b2 b3 b4 b5 b6 b7 b8) =
     Mat3 (a0*b0 + a1*b3 + a2*b6) (a0*b1 + a1*b4 + a2*b7) (a0*b2 + a1*b5 + a2*b8)
          (a3*b0 + a4*b3 + a5*b6) (a3*b1 + a4*b4 + a5*b7) (a3*b2 + a4*b5 + a5*b8)
          (a6*b0 + a7*b3 + a8*b6) (a6*b1 + a7*b4 + a8*b7) (a6*b2 + a7*b5 + a8*b8)"

text \<open>\<^verbatim>\<open>np.dot(A, v)\<close> and \<^verbatim>\<open>A.dot(v)\<close> for a 3x3 matrix and a 3-vector.\<close>

fun mat_vec :: "mat3 \<Rightarrow> vec3 \<Rightarrow> vec3" where
  "mat_vec (Mat3 a0 a1 a2 a3 a4 a5 a6 a7 a8) (x, y, z) =
     (a0*x + a1*y + a2*z, a3*x + a4*y + a5*z, a6*x + a7*y + a8*z)"

fun det3 :: "mat3 \<Rightarrow> rat" where
  "det3 (Mat3 a0 a1 a2 a3 a4 a5 a6 a7 a8) =
     a0 * (a4*a8 - a5*a7) - a1 * (a3*a8 - a5*a6) + a2 * (a3*a7 - a4*a6)"

text \<open>
  \<^verbatim>\<open>np.linalg.inv\<close>: the inverse (here by the adjugate, exactly), LinAlgError on a
  singular matrix. The library factorises in float64 and raises when a pivot is exactly
  zero: for a singular matrix whose elimination is exact (as for integer entries with a
  repeated or a zero row) this is the case; when rounding leaves a tiny pivot instead,
  the library returns a matrix of huge entries where the model raises.
\<close>

fun linalg_inv :: "mat3 \<Rightarrow> error + mat3" where
  "linalg_inv (Mat3 a0 a1 a2 a3 a4 a5 a6 a7 a8) =
     (let d = det3 (Mat3 a0 a1 a2 a3 a4 a5 a6 a7 a8) in
      if d = 0 then Inl LinAlgError
      else Inr (Mat3 ((a4*a8 - a5*a7) / d) ((a2*a7 - a1*a8) / d) ((a1*a5 - a2*a4) / d)
                     ((a5*a6 - a3*a8) / d) ((a0*a8 - a2*a6) / d) ((a2*a3 - a0*a5) / d)
                     ((a3*a7 - a4*a6) / d) ((a1*a6 - a0*a7) / d) ((a0*a4 - a1*a3) / d)))"

text \<open>The class \<^verbatim>\<open>ImageInfo\<close>: a name, the pixels and the placement transform.\<close>

record ImageInfo =
  name :: string
  img :: "int ndarray"
  position :: mat3

section \<open>The hat weight of accumulateBlend (line 87)\<close>

text \<open>
  \<^verbatim>\<open>weight = min(x, blendWidth, W - x) / blendWidth\<close>: the three arguments are Python
  integers, the quotient is Python's true division, which raises on a zero divisor.
\<close>

definition weight :: "int \<Rightarrow> int \<Rightarrow> int \<Rightarrow> error + rat" where
  "weight x blendWidth W =
     (if blendWidth = 0 then Inl ZeroDivisionError
      else Inr (of_int (min x (min blendWidth (W - x))) / of_int blendWidth))"

section \<open>Geometry utilities\<close>

text \<open>
  \<^verbatim>\<open>cv2.perspectiveTransform\<close> on 2-D points (OpenCV, not part of the repository):
  each point (x, y) goes to ((m0 x + m1 y + m2) / w, (m3 x + m4 y + m5) / w) with
  w = m6 x + m7 y + m8, and to (0, 0) when |w| does not exceed the library's threshold.
  The library computes in float64 and returns float32; the model keeps the exact
  quotients, which are the returned values when they are representable in float32.
\<close>

definition FLT_EPSILON :: rat where
  "FLT_EPSILON = 1 / 2 ^ 23"

fun perspectiveTransform_point :: "mat3 \<Rightarrow> rat \<times> rat \<Rightarrow> rat \<times> rat" where
  "perspectiveTransform_point (Mat3 m0 m1 m2 m3 m4 m5 m6 m7 m8) (x, y) =
     (let w = x * m6 + y * m7 + m8 in
      if FLT_EPSILON < \<bar>w\<bar>
      then ((x * m0 + y * m1 + m2) * (1 / w), (x * m3 + y * m4 + m5) * (1 / w))
      else (0, 0))"

definition perspectiveTransform :: "(rat \<times> rat) list \<Rightarrow> mat3 \<Rightarrow> (rat \<times> rat) list" where
  "perspectiveTransform pts M = map (perspectiveTransform_point M) pts"

text \<open>\<^verbatim>\<open>np.min\<close> and \<^verbatim>\<open>np.max\<close> of a one-dimensional, non-empty array.\<close>

definition np_min :: "rat list \<Rightarrow> rat" where
  "np_min xs = Min (set xs)"

definition np_max :: "rat list \<Rightarrow> rat" where
  "np_max xs = Max (set xs)"

text \<open>
  Lines 30 to 34 of \<^verbatim>\<open>imageBoundingBox\<close>: the four corners, transformed. Lines 36 to 41
  take the extremes and truncate them with \<^verbatim>\<open>int\<close>; the exact extremes are finite, so the
  \<^verbatim>\<open>OverflowError\<close> of \<^verbatim>\<open>int\<close> on a float32 infinity (corners beyond the float32 range)
  has no counterpart here.
\<close>

definition transformed_corners :: "int ndarray \<Rightarrow> mat3 \<Rightarrow> (rat \<times> rat) list" where
  "transformed_corners im M =
     (case shape im of (H, W, _) \<Rightarrow>
        let corners = [(0, 0), (0, of_int (int H - 1)),
                       (of_int (int W - 1), of_int (int H - 1)), (of_int (int W - 1), 0)]
        in perspectiveTransform corners M)"

definition imageBoundingBox :: "int ndarray \<Rightarrow> mat3 \<Rightarrow> int \<times> int \<times> int \<times> int" where
  "imageBoundingBox im M =
     (let tc = transformed_corners im M;
          minX = np_min (map fst tc);
          minY = np_min (map snd tc);
          maxX = np_max (map fst tc);
          maxY = np_max (map snd tc)
      in (py_int minX, py_int minY, py_int maxX, py_int maxY))"

section \<open>The accumulation buffer builder\<close>

text \<open>
  The loop of \<^verbatim>\<open>getAccSize\<close> (lines 141 to 156) on the state
  (minX, minY, maxX, maxY, channels, width); the \<^verbatim>\<open>print\<close> of line 161 is left out.
\<close>

definition getAccSize_step ::
  "ImageInfo \<Rightarrow> int \<times> int \<times> int \<times> int \<times> int \<times> int \<Rightarrow> int \<times> int \<times> int \<times> int \<times> int \<times> int" where
  "getAccSize_step i s =
     (case s of (minX, minY, maxX, maxY, channels, width) \<Rightarrow>
      case shape (img i) of (_, w, c) \<Rightarrow>
      case (if channels = - 1 then (int c, int w) else (channels, width)) of
        (channels', width') \<Rightarrow>
      case imageBoundingBox (img i) (position i) of (newMinX, newMinY, newMaxX, newMaxY) \<Rightarrow>
        (min minX newMinX, min minY newMinY, max maxX newMaxX, max maxY newMaxY,
         channels', width'))"

definition getAccSize :: "ImageInfo list \<Rightarrow> int \<times> int \<times> int \<times> int \<times> mat3" where
  "getAccSize ipv =
     (case fold getAccSize_step ipv (sys_maxsize, sys_maxsize, 0, 0, - 1, - 1) of
        (minX, minY, maxX, maxY, channels, width) \<Rightarrow>
          let accWidth = \<lceil>rat_of_int maxX\<rceil> - \<lfloor>rat_of_int minX\<rfloor>;
              accHeight = \<lceil>rat_of_int maxY\<rceil> - \<lfloor>rat_of_int minY\<rfloor>;
              translation = Mat3 1 0 (of_int (- minX))  0 1 (of_int (- minY))  0 0 1
          in (accWidth, accHeight, channels, width, translation))"



section \<open>The bilinear sampler\<close>

text \<open>
  numpy's index along an axis of length n: 0 to n - 1, or -n to -1 counted from the end;
  anything else raises IndexError.
\<close>

definition np_index :: "nat \<Rightarrow> int \<Rightarrow> error + nat" where
  "np_index n i =
     (if 0 \<le> i \<and> i < int n then Inr (nat i)
      else if - int n \<le> i \<and> i < 0 then Inr (nat (int n + i))
      else Inl IndexError)"

text \<open>\<^verbatim>\<open>a[y, x]\<close>: the channel vector of a pixel.\<close>

definition pixel_at :: "'a ndarray \<Rightarrow> int \<Rightarrow> int \<Rightarrow> error + 'a list" where
  "pixel_at a y x =
     (case shape a of (H, W, _) \<Rightarrow>
        case np_index H y of Inl e \<Rightarrow> Inl e | Inr r \<Rightarrow>
        case np_index W x of Inl e \<Rightarrow> Inl e | Inr c \<Rightarrow> Inr (cells a ! r ! c))"

text \<open>A channel vector times a scalar, and the sum of two channel vectors.\<close>

definition scale :: "rat list \<Rightarrow> rat \<Rightarrow> rat list" where
  "scale p k = map (\<lambda>v. v * k) p"

definition vadd :: "rat list \<Rightarrow> rat list \<Rightarrow> rat list" where
  "vadd p q = map2 (+) p q"

text \<open>
  \<^verbatim>\<open>bilinear_interpolation\<close> (lines 43 to 57). \<^verbatim>\<open>int(x)\<close> and then \<^verbatim>\<open>int(y)\<close> raise
  on a value that is not finite; the four pixel reads raise IndexError out of bounds.
\<close>

fun bilinear_interpolation :: "rat ndarray \<Rightarrow> fl \<Rightarrow> fl \<Rightarrow> error + rat list" where
  "bilinear_interpolation im (Finite x) (Finite y) =
     (let x_0 = py_int x;
          y_0 = py_int y;
          x_1 = x_0 + 1;
          y_1 = y_0 + 1;
          dx = x - of_int x_0;
          dy = y - of_int y_0
      in case pixel_at im y_0 x_0 of Inl e \<Rightarrow> Inl e | Inr p00 \<Rightarrow>
         case pixel_at im y_0 x_1 of Inl e \<Rightarrow> Inl e | Inr p01 \<Rightarrow>
         case pixel_at im y_1 x_0 of Inl e \<Rightarrow> Inl e | Inr p10 \<Rightarrow>
         case pixel_at im y_1 x_1 of Inl e \<Rightarrow> Inl e | Inr p11 \<Rightarrow>
           let top_left = scale (scale p00 (1 - dx)) (1 - dy);
               top_right = scale (scale p01 dx) (1 - dy);
               bottom_left = scale (scale p10 (1 - dx)) dy;
               bottom_right = scale (scale p11 dx) dy
           in Inr (vadd (vadd (vadd top_left top_right) bottom_left) bottom_right))"
| "bilinear_interpolation im (Finite x) y =
     (case py_int_fl y of Inl e \<Rightarrow> Inl e | Inr _ \<Rightarrow> Inl ValueError)"
| "bilinear_interpolation im x y =
     (case py_int_fl x of Inl e \<Rightarrow> Inl e | Inr _ \<Rightarrow> Inl ValueError)"

section \<open>The blend accumulator\<close>

text \<open>
  \<^verbatim>\<open>img.astype(np.float64) / 255.0\<close> (line 72). The quotient p / 255 is the exact one; the
  source has its float64 rounding, which is exact for p = 0 and p = 255 only.
\<close>

definition to_unit_floats :: "int ndarray \<Rightarrow> rat ndarray" where
  "to_unit_floats im =
     \<lparr>shape = shape im, cells = map (map (map (\<lambda>v. rat_of_int v / 255))) (cells im)\<rparr>"

text \<open>The skip test of line 82, on the float image.\<close>

definition outside :: "rat ndarray \<Rightarrow> fl \<Rightarrow> fl \<Rightarrow> bool" where
  "outside im input_x input_y =
     (case shape im of (h, w, _) \<Rightarrow>
        fl_less input_x 0 \<or> fl_ge input_x (int w - 1) \<or>
        fl_less input_y 0 \<or> fl_ge input_y (int h - 1))"

text \<open>
  \<^verbatim>\<open>acc[y, x, :3] += pixel_value * weight\<close> (line 89) on the channel vector of the
  cell: the slice has min(3, K) entries; the right-hand side must have as many, or one
  (which is broadcast); otherwise numpy raises ValueError.
\<close>

definition add_colors :: "rat list \<Rightarrow> rat list \<Rightarrow> error + rat list" where
  "add_colors cell contrib =
     (let n = min 3 (length cell) in
      if length contrib = n then Inr (map2 (+) (take n cell) contrib @ drop n cell)
      else if length contrib = 1 then Inr (map (\<lambda>v. v + hd contrib) (take n cell) @ drop n cell)
      else Inl ValueError)"

text \<open>\<^verbatim>\<open>acc[y, x, 3] += weight\<close> (line 90).\<close>

definition add_weight :: "rat list \<Rightarrow> rat \<Rightarrow> error + rat list" where
  "add_weight cell wt =
     (if 3 < length cell then Inr (cell[3 := cell ! 3 + wt]) else Inl IndexError)"

text \<open>
  The body of the pixel loop (lines 79 to 90) on the cell at column x of row y; W is the
  width of the accumulator. A skipped pixel leaves the cell as it is.
\<close>

definition blend_cell ::
  "rat ndarray \<Rightarrow> mat3 \<Rightarrow> int \<Rightarrow> nat \<Rightarrow> nat \<Rightarrow> nat \<Rightarrow> rat list \<Rightarrow> error + rat list" where
  "blend_cell imf inverse_M blendWidth W x y cell =
     (case mat_vec inverse_M (of_nat x, of_nat y, 1) of (cx, cy, cz) \<Rightarrow>
        let input_x = np_div cx cz;
            input_y = np_div cy cz
        in if outside imf input_x input_y then Inr cell
           else case bilinear_interpolation imf input_x input_y of Inl e \<Rightarrow> Inl e
             | Inr pixel_value \<Rightarrow>
           case weight (int x) blendWidth (int W) of Inl e \<Rightarrow> Inl e | Inr wt \<Rightarrow>
           case add_colors cell (scale pixel_value wt) of Inl e \<Rightarrow> Inl e | Inr cell' \<Rightarrow>
             add_weight cell' wt)"

definition blend_pixel ::
  "rat ndarray \<Rightarrow> mat3 \<Rightarrow> int \<Rightarrow> nat \<Rightarrow> nat \<Rightarrow> nat \<Rightarrow> rat ndarray \<Rightarrow> error + rat ndarray" where
  "blend_pixel imf inverse_M blendWidth W y x acc =
     (case blend_cell imf inverse_M blendWidth W x y (cells acc ! y ! x) of
        Inl e \<Rightarrow> Inl e
      | Inr cell \<Rightarrow> Inr (acc\<lparr>cells := (cells acc)[y := (cells acc ! y)[x := cell]]\<rparr>))"

text \<open>A \<^verbatim>\<open>for\<close> loop over a list that updates a state and stops at the first exception.\<close>

fun for_each :: "('i \<Rightarrow> 's \<Rightarrow> error + 's) \<Rightarrow> 'i list \<Rightarrow> 's \<Rightarrow> error + 's" where
  "for_each f [] s = Inr s"
| "for_each f (i # rest) s = (case f i s of Inl e \<Rightarrow> Inl e | Inr s' \<Rightarrow> for_each f rest s')"

text \<open>\<^verbatim>\<open>accumulateBlend\<close> (lines 59 to 92); the accumulator is returned updated.\<close>

definition accumulateBlend ::
  "int ndarray \<Rightarrow> rat ndarray \<Rightarrow> mat3 \<Rightarrow> int \<Rightarrow> error + rat ndarray" where
  "accumulateBlend im acc M blendWidth =
     (let imf = to_unit_floats im in
      case shape acc of (H, W, _) \<Rightarrow>
      case linalg_inv M of Inl e \<Rightarrow> Inl e | Inr inverse_M \<Rightarrow>
        for_each (\<lambda>y acc. for_each (blend_pixel imf inverse_M blendWidth W y) [0..<W] acc)
          [0..<H] acc)"

section \<open>The compositor\<close>

text \<open>
  The conversion of a float to uint8 (\<^verbatim>\<open>astype(np.uint8)\<close>): truncation toward zero
  for a value in range. Outside the range the C conversion is not defined; on x86-64 it
  goes through a 32-bit integer, which wraps a value within the int32 range modulo 256
  and gives 0 beyond it, and this is what is written out.
\<close>

definition astype_uint8 :: "rat \<Rightarrow> int" where
  "astype_uint8 v =
     (let t = py_int v in if - (2 ^ 31) \<le> t \<and> t < 2 ^ 31 then t mod 256 else 0)"

text \<open>
  Lines 106 and 108 on one cell whose shape passed the broadcast check: the first
  min(3, K) channels are divided by the channels from 3 on, each raised to at least 1e-8
  (one divisor is broadcast), then channel 3 is set to 1. The quotients are the exact
  ones, and 1e-8 is the rational 1 / 10^8 (the float64 literal is the double nearest to
  it).
\<close>

definition normalize_cell :: "rat list \<Rightarrow> rat list" where
  "normalize_cell cell =
     (let colors = take 3 cell;
          divisors = map (\<lambda>w. max w (1 / 10 ^ 8)) (drop 3 cell);
          colors' = (if length divisors = 1 then map (\<lambda>v. v / hd divisors) colors
                     else map2 (/) colors divisors)
      in (colors' @ drop 3 cell)[3 := 1])"

text \<open>
  \<^verbatim>\<open>normalizeBlend\<close> (lines 95 to 110). The in-place division needs the K - 3 divisor
  channels to be as many as the min(3, K) colour channels, or one (ValueError otherwise);
  the assignment to channel 3 needs K > 3 (IndexError otherwise).
\<close>

definition normalizeBlend :: "rat ndarray \<Rightarrow> error + int ndarray" where
  "normalizeBlend acc =
     (case shape acc of (H, W, K) \<Rightarrow>
        if \<not> (K - 3 = min 3 K \<or> K - 3 = 1) then Inl ValueError
        else if \<not> 3 < K then Inl IndexError
        else Inr \<lparr>shape = (H, W, K),
                  cells = map (map (\<lambda>cell. map (\<lambda>v. astype_uint8 (v * 255)) (normalize_cell cell)))
                            (cells acc)\<rparr>)"

text \<open>\<^verbatim>\<open>np.zeros((h, w, k))\<close>: ValueError on a negative dimension.\<close>

definition np_zeros :: "int \<Rightarrow> int \<Rightarrow> int \<Rightarrow> error + rat ndarray" where
  "np_zeros h w k =
     (if h < 0 \<or> w < 0 \<or> k < 0 then Inl ValueError
      else Inr \<lparr>shape = (nat h, nat w, nat k),
                cells = replicate (nat h) (replicate (nat w) (replicate (nat k) 0))\<rparr>)"

text \<open>\<^verbatim>\<open>pasteImages\<close> (lines 167 to 178).\<close>

definition pasteImages ::
  "ImageInfo list \<Rightarrow> mat3 \<Rightarrow> int \<Rightarrow> int \<Rightarrow> int \<Rightarrow> int \<Rightarrow> error + rat ndarray" where
  "pasteImages ipv translation blendWidth accWidth accHeight channels =
     (case np_zeros accHeight accWidth (channels + 1) of Inl e \<Rightarrow> Inl e
      | Inr acc \<Rightarrow>
          for_each (\<lambda>i acc. let M_trans = mat_mul translation (position i)
                             in accumulateBlend (img i) acc M_trans blendWidth) ipv acc)"

section \<open>The drift corrector\<close>

text \<open>
  The loop of \<^verbatim>\<open>getDriftParams\<close> (lines 195 to 211) on the state
  ((x_init, y_init), (x_final, y_final)), each pair unbound (\<open>None\<close>) until assigned;
  n is \<^verbatim>\<open>len(ipv)\<close>. The division \<^verbatim>\<open>p[:2] / p[2]\<close> is numpy's.
\<close>

definition getDriftParams_step ::
  "mat3 \<Rightarrow> int \<Rightarrow> nat \<Rightarrow> nat \<times> ImageInfo \<Rightarrow>
   (fl \<times> fl) option \<times> (fl \<times> fl) option \<Rightarrow> (fl \<times> fl) option \<times> (fl \<times> fl) option" where
  "getDriftParams_step translation width n ci s =
     (case ci of (count, i) \<Rightarrow>
        if int count \<noteq> 0 \<and> int count \<noteq> int n - 1 then s
        else
          let M_trans = mat_mul translation (position i) in
          case mat_vec M_trans (1 / 2 * rat_of_int width, 0, 1) of (px, py, pz) \<Rightarrow>
            let q = (np_div px pz, np_div py pz);
                s1 = (if int count = 0 then (Some q, snd s) else s)
            in (if int count = int n - 1 then (fst s1, Some q) else s1))"

text \<open>\<^verbatim>\<open>getDriftParams\<close>: the \<^verbatim>\<open>return\<close> reads the four variables, bound or not.\<close>

definition getDriftParams ::
  "ImageInfo list \<Rightarrow> mat3 \<Rightarrow> int \<Rightarrow> error + (fl \<times> fl \<times> fl \<times> fl)" where
  "getDriftParams ipv translation width =
     (case fold (getDriftParams_step translation width (length ipv)) (enumerate 0 ipv) (None, None) of
        (Some (x_init, y_init), Some (x_final, y_final)) \<Rightarrow> Inr (x_init, y_init, x_final, y_final)
      | _ \<Rightarrow> Inl UnboundLocalError)"

text \<open>
  \<^verbatim>\<open>cv2.warpPerspective(src, A, (w, h), flags=cv2.INTER_LINEAR)\<close> for the identity A,
  the only transform \<^verbatim>\<open>blendImages\<close> passes (OpenCV, not part of the repository): an
  empty source fails an assertion; the result is h x w (the size of the source when w or
  h is not positive), a copy of the source where they overlap and 0 elsewhere.
\<close>

definition warpPerspective_identity :: "int ndarray \<Rightarrow> int \<times> int \<Rightarrow> error + int ndarray" where
  "warpPerspective_identity src dsize =
     (case shape src of (H, W, K) \<Rightarrow>
        if H = 0 \<or> W = 0 \<or> K = 0 then Inl CvError
        else case (if fst dsize \<le> 0 \<or> snd dsize \<le> 0 then (W, H)
                   else (nat (fst dsize), nat (snd dsize))) of (w, h) \<Rightarrow>
          Inr \<lparr>shape = (h, w, K),
               cells = map (\<lambda>y. map (\<lambda>x. if y < H \<and> x < W then cells src ! y ! x
                                            else replicate K 0) [0..<w]) [0..<h]\<rparr>)"

text \<open>
  \<^verbatim>\<open>blendImages\<close> (lines 215 to 256) with \<^verbatim>\<open>A_out=None\<close>. A stays the identity up to
  the call of warpPerspective, since the 360 branch raises.
\<close>

definition blendImages :: "ImageInfo list \<Rightarrow> int \<Rightarrow> bool \<Rightarrow> error + int ndarray" where
  "blendImages ipv blendWidth is360 =
     (case getAccSize ipv of (accWidth, accHeight, channels, width, translation) \<Rightarrow>
      case pasteImages ipv translation blendWidth accWidth accHeight channels of
        Inl e \<Rightarrow> Inl e
      | Inr acc \<Rightarrow>
      case normalizeBlend acc of Inl e \<Rightarrow> Inl e | Inr compImage \<Rightarrow>
        let outputWidth = (if is360 then accWidth - width else accWidth) in
        case getDriftParams ipv translation width of Inl e \<Rightarrow> Inl e
        | Inr (x_init, y_init, x_final, y_final) \<Rightarrow>
          if is360 then Inl (PyException ''TODO 12 in blend.py not implemented'')
          else warpPerspective_identity compImage (outputWidth, accHeight))"

section \<open>Notions for the statements, and concrete inputs\<close>

text \<open>
  Concrete inputs for the closed theorems: a constant image, an image with its placement,
  a pure translation.
\<close>

definition const_img :: "nat \<Rightarrow> nat \<Rightarrow> nat \<Rightarrow> int \<Rightarrow> int ndarray" where
  "const_img H W C v = \<lparr>shape = (H, W, C), cells = replicate H (replicate W (replicate C v))\<rparr>"

definition placed :: "int ndarray \<Rightarrow> mat3 \<Rightarrow> ImageInfo" where
  "placed im M = \<lparr>name = ''img'', img = im, position = M\<rparr>"

definition shift :: "rat \<Rightarrow> rat \<Rightarrow> mat3" where
  "shift tx ty = Mat3 1 0 tx  0 1 ty  0 0 1"





text \<open>The transformed corners of every image of a sequence, for stating the enclosing box.\<close>

definition all_corners :: "ImageInfo list \<Rightarrow> (rat \<times> rat) list" where
  "all_corners ipv = concat (map (\<lambda>i. transformed_corners (img i) (position i)) ipv)"

text \<open>A 3x4 image with three channels.\<close>

definition sample_img :: "int ndarray" where
  "sample_img = \<lparr>shape = (3, 4, 3),
     cells = [[[10, 20, 30], [40, 50, 60], [70, 80, 90], [100, 110, 120]],
              [[11, 21, 31], [41, 51, 61], [71, 81, 91], [101, 111, 121]],
              [[12, 22, 32], [42, 52, 62], [72, 82, 92], [102, 112, 122]]]\<rparr>"

text \<open>
  A point of an image mapped into the canvas: through the placement M, then the
  translation, then divided by its third coordinate (lines 201 to 208).
\<close>

definition canvas_point :: "mat3 \<Rightarrow> mat3 \<Rightarrow> vec3 \<Rightarrow> fl \<times> fl" where
  "canvas_point translation M p =
     (case mat_vec (mat_mul translation M) p of (px, py, pz) \<Rightarrow> (np_div px pz, np_div py pz))"

text \<open>
  The midpoints of the left and of the right edge of an image, in homogeneous pixel
  coordinates: the points the data model of the specification names for the drift
  parameters (stated from the specification, to compare with the code).
\<close>

definition spec_left_edge_midpoint :: "int ndarray \<Rightarrow> vec3" where
  "spec_left_edge_midpoint im = (case shape im of (H, W, _) \<Rightarrow> (0, (of_nat H - 1) / 2, 1))"

definition spec_right_edge_midpoint :: "int ndarray \<Rightarrow> vec3" where
  "spec_right_edge_midpoint im = (case shape im of (H, W, _) \<Rightarrow> (of_nat W - 1, (of_nat H - 1) / 2, 1))"

text \<open>An image without negative values, and the pointwise order of two accumulators of one shape.\<close>

definition nonneg_img :: "int ndarray \<Rightarrow> bool" where
  "nonneg_img im = list_all (list_all (list_all (\<lambda>v. 0 \<le> v))) (cells im)"

definition arr_le :: "rat ndarray \<Rightarrow> rat ndarray \<Rightarrow> bool" where
  "arr_le a b = (shape a = shape b \<and> list_all2 (list_all2 (list_all2 (\<le>))) (cells a) (cells b))"

text \<open>A zero-filled accumulator, as \<^verbatim>\<open>np.zeros\<close> allocates it.\<close>

definition zeros_acc :: "nat \<Rightarrow> nat \<Rightarrow> nat \<Rightarrow> rat ndarray" where
  "zeros_acc H W K = \<lparr>shape = (H, W, K), cells = replicate H (replicate W (replicate K 0))\<rparr>"

text \<open>
  The invariant of the accumulator: in a cell with a weight channel, the weight is not
  negative, and the three colour sums are 0 when the weight is 0.
\<close>

definition cell_ok :: "rat list \<Rightarrow> bool" where
  "cell_ok cell = (length cell \<le> 3 \<or> (0 \<le> cell ! 3 \<and> (cell ! 3 \<noteq> 0 \<or> take 3 cell = [0, 0, 0])))"

definition acc_ok :: "rat ndarray \<Rightarrow> bool" where
  "acc_ok a = (wf_arr a \<and> list_all (list_all cell_ok) (cells a))"

text \<open>An image whose values are those of 8-bit pixels.\<close>

definition uint8_img :: "int ndarray \<Rightarrow> bool" where
  "uint8_img im = list_all (list_all (list_all (\<lambda>v. 0 \<le> v \<and> v \<le> 255))) (cells im)"

section \<open>Helper lemmas\<close>

subsection \<open>Floor and ceiling of rational numerals\<close>

lemma floor_rat_numeral_quot [simp]:
  "\<lfloor>numeral a / numeral b :: rat\<rfloor> = numeral a div numeral b"
proof -
  have "\<lfloor>rat_of_int (numeral a) / rat_of_int (numeral b)\<rfloor> = numeral a div numeral b"
    by (rule floor_divide_of_int_eq)
  then show ?thesis by simp
qed

lemma floor_rat_unit_quot [simp]:
  "\<lfloor>1 / numeral b :: rat\<rfloor> = 1 div numeral b"
proof -
  have "\<lfloor>rat_of_int 1 / rat_of_int (numeral b)\<rfloor> = 1 div numeral b"
    by (rule floor_divide_of_int_eq)
  then show ?thesis by simp
qed

lemma floor_rat_neg_numeral_quot [simp]:
  "\<lfloor>- (numeral a / numeral b) :: rat\<rfloor> = - numeral a div numeral b"
proof -
  have "\<lfloor>rat_of_int (- numeral a) / rat_of_int (numeral b)\<rfloor> = - numeral a div numeral b"
    by (rule floor_divide_of_int_eq)
  then show ?thesis by simp
qed

lemma floor_rat_neg_unit_quot [simp]:
  "\<lfloor>- (1 / numeral b) :: rat\<rfloor> = - 1 div numeral b"
proof -
  have "\<lfloor>rat_of_int (- 1) / rat_of_int (numeral b)\<rfloor> = - 1 div numeral b"
    by (rule floor_divide_of_int_eq)
  then show ?thesis by simp
qed

lemma ceiling_rat_numeral_quot [simp]:
  "\<lceil>numeral a / numeral b :: rat\<rceil> = - (- numeral a div numeral b)"
  by (simp add: ceiling_def)

lemma ceiling_rat_unit_quot [simp]:
  "\<lceil>1 / numeral b :: rat\<rceil> = - (- 1 div numeral b)"
  by (simp add: ceiling_def)

lemma ceiling_rat_neg_numeral_quot [simp]:
  "\<lceil>- (numeral a / numeral b) :: rat\<rceil> = - (numeral a div numeral b)"
  by (simp add: ceiling_def)

lemma ceiling_rat_neg_unit_quot [simp]:
  "\<lceil>- (1 / numeral b) :: rat\<rceil> = - (1 div numeral b)"
  by (simp add: ceiling_def)

lemma floor_rat_neg_one [simp]: "\<lfloor>- 1 :: rat\<rfloor> = - 1"
proof -
  have "\<lfloor>rat_of_int (- 1)\<rfloor> = - 1" by (rule floor_of_int)
  then show ?thesis by simp
qed

lemma ceiling_rat_neg_one [simp]: "\<lceil>- 1 :: rat\<rceil> = - 1"
  by (simp add: ceiling_def)

subsection \<open>The bounding box and the fold of getAccSize\<close>






lemmas geom_defs = getAccSize_def getAccSize_step_def imageBoundingBox_def transformed_corners_def
  perspectiveTransform_def np_min_def np_max_def FLT_EPSILON_def py_int_def sys_maxsize_def
  all_corners_def const_img_def placed_def shift_def np_identity3_def

subsection \<open>The sampler under the skip test\<close>

lemma py_int_nonneg: "0 \<le> r \<Longrightarrow> py_int r = \<lfloor>r\<rfloor>"
  by (simp add: py_int_def)

lemma floor_below_bound:
  fixes r :: rat
  assumes "0 \<le> r" "r < of_int (n - 1)"
  shows "0 \<le> \<lfloor>r\<rfloor> \<and> \<lfloor>r\<rfloor> + 1 < n"
proof -
  have "\<lfloor>r\<rfloor> < n - 1" using assms(2) by (simp add: floor_less_iff)
  moreover have "0 \<le> \<lfloor>r\<rfloor>" using assms(1) by simp
  ultimately show ?thesis by simp
qed

lemma np_index_in_range: "0 \<le> i \<Longrightarrow> i < int n \<Longrightarrow> np_index n i = Inr (nat i)"
  by (simp add: np_index_def)

lemma pixel_at_in_range:
  "shape a = (H, W, C) \<Longrightarrow> 0 \<le> y \<Longrightarrow> y < int H \<Longrightarrow> 0 \<le> x \<Longrightarrow> x < int W \<Longrightarrow>
   pixel_at a y x = Inr (cells a ! nat y ! nat x)"
  by (simp add: pixel_at_def np_index_in_range)

lemma inside_bounds:
  assumes "shape im = (h, w, c)" "\<not> outside im (Finite sx) (Finite sy)"
  shows "0 \<le> sx \<and> sx < of_int (int w - 1) \<and> 0 \<le> sy \<and> sy < of_int (int h - 1)"
  using assms by (simp add: outside_def not_le not_less)

lemma bilinear_in_bounds_aux:
  assumes sh: "shape im = (h, w, c)"
    and guard: "\<not> outside im (Finite sx) (Finite sy)"
  shows "0 \<le> py_int sx \<and> py_int sx + 1 < int w \<and> 0 \<le> py_int sy \<and> py_int sy + 1 < int h \<and>
         pixel_at im (py_int sy) (py_int sx) = Inr (cells im ! nat (py_int sy) ! nat (py_int sx)) \<and>
         pixel_at im (py_int sy) (py_int sx + 1) = Inr (cells im ! nat (py_int sy) ! nat (py_int sx + 1)) \<and>
         pixel_at im (py_int sy + 1) (py_int sx) = Inr (cells im ! nat (py_int sy + 1) ! nat (py_int sx)) \<and>
         pixel_at im (py_int sy + 1) (py_int sx + 1) =
           Inr (cells im ! nat (py_int sy + 1) ! nat (py_int sx + 1)) \<and>
         (\<exists>v. bilinear_interpolation im (Finite sx) (Finite sy) = Inr v)"
proof -
  note b = inside_bounds [OF sh guard]
  have x: "0 \<le> py_int sx \<and> py_int sx + 1 < int w"
    using b floor_below_bound [of sx "int w"] by (simp add: py_int_nonneg)
  have y: "0 \<le> py_int sy \<and> py_int sy + 1 < int h"
    using b floor_below_bound [of sy "int h"] by (simp add: py_int_nonneg)
  have p00: "pixel_at im (py_int sy) (py_int sx) = Inr (cells im ! nat (py_int sy) ! nat (py_int sx))"
    using x y by (intro pixel_at_in_range [OF sh]) simp_all
  have p01: "pixel_at im (py_int sy) (py_int sx + 1) = Inr (cells im ! nat (py_int sy) ! nat (py_int sx + 1))"
    using x y by (intro pixel_at_in_range [OF sh]) simp_all
  have p10: "pixel_at im (py_int sy + 1) (py_int sx) = Inr (cells im ! nat (py_int sy + 1) ! nat (py_int sx))"
    using x y by (intro pixel_at_in_range [OF sh]) simp_all
  have p11: "pixel_at im (py_int sy + 1) (py_int sx + 1) = Inr (cells im ! nat (py_int sy + 1) ! nat (py_int sx + 1))"
    using x y by (intro pixel_at_in_range [OF sh]) simp_all
  have "\<exists>v. bilinear_interpolation im (Finite sx) (Finite sy) = Inr v"
    by (simp add: Let_def p00 p01 p10 p11)
  with x y p00 p01 p10 p11 show ?thesis by simp
qed

lemma bilinear_never_index_error:
  assumes "\<not> outside im ix iy"
  shows "bilinear_interpolation im ix iy \<noteq> Inl IndexError"
proof (cases ix)
  case (Finite sx)
  note fx = this
  show ?thesis
  proof (cases iy)
    case (Finite sy)
    obtain h w c where sh: "shape im = (h, w, c)" by (cases "shape im")
    have g: "\<not> outside im (Finite sx) (Finite sy)" using assms fx Finite by simp
    from bilinear_in_bounds_aux [OF sh g]
    have "\<exists>v. bilinear_interpolation im (Finite sx) (Finite sy) = Inr v" by blast
    then show ?thesis using fx Finite by auto
  qed (simp_all add: fx)
qed simp_all

subsection \<open>The loop of getDriftParams\<close>

lemma getDriftParams_step_eq:
  "getDriftParams_step T w n (count, i) s =
     (if count \<noteq> 0 \<and> int count \<noteq> int n - 1 then s
      else ((if count = 0 then Some (canvas_point T (position i) (1 / 2 * rat_of_int w, 0, 1)) else fst s),
            (if int count = int n - 1 then Some (canvas_point T (position i) (1 / 2 * rat_of_int w, 0, 1))
             else snd s)))"
  by (cases s) (auto simp: getDriftParams_step_def canvas_point_def Let_def split: prod.splits)

lemma getDriftParams_fold:
  assumes "xs \<noteq> []" "k + length xs = n"
  shows "fold (getDriftParams_step T w n) (enumerate k xs) (a, b) =
           ((if k = 0 then Some (canvas_point T (position (hd xs)) (1 / 2 * rat_of_int w, 0, 1)) else a),
            Some (canvas_point T (position (last xs)) (1 / 2 * rat_of_int w, 0, 1)))"
  using assms
proof (induction xs arbitrary: k a b)
  case Nil
  then show ?case by simp
next
  case (Cons x xs)
  show ?case
  proof (cases "xs = []")
    case True
    with Cons.prems have "int k = int n - 1" by simp
    with True show ?thesis by (simp add: getDriftParams_step_eq)
  next
    case False
    with Cons.prems have ne: "int k \<noteq> int n - 1" by (cases xs) auto
    from Cons.prems have len: "Suc k + length xs = n" by simp
    note ih = Cons.IH [OF False len]
    show ?thesis
    proof (cases "k = 0")
      case True
      have "Suc 0 + length xs = n" using len True by simp
      from Cons.IH [OF False this] show ?thesis
        using False ne True by (simp add: getDriftParams_step_eq)
    next
      case nz: False
      then show ?thesis using False ne by (simp add: getDriftParams_step_eq ih)
    qed
  qed
qed

lemma getDriftParams_nonempty:
  assumes "ipv \<noteq> []"
  shows "getDriftParams ipv T w =
    Inr (fst (canvas_point T (position (hd ipv)) (1 / 2 * rat_of_int w, 0, 1)),
         snd (canvas_point T (position (hd ipv)) (1 / 2 * rat_of_int w, 0, 1)),
         fst (canvas_point T (position (last ipv)) (1 / 2 * rat_of_int w, 0, 1)),
         snd (canvas_point T (position (last ipv)) (1 / 2 * rat_of_int w, 0, 1)))"
  using getDriftParams_fold [OF assms, of 0 "length ipv" T w None None]
  by (simp add: getDriftParams_def split: prod.splits)

subsection \<open>Loops, and the accumulator only grows\<close>

lemma for_each_append:
  "for_each f (xs @ ys) s = (case for_each f xs s of Inl e \<Rightarrow> Inl e | Inr s' \<Rightarrow> for_each f ys s')"
  by (induction xs arbitrary: s) (auto split: sum.splits)

lemma for_each_invariant:
  assumes "for_each f xs s = Inr s'" "P s"
    and "\<And>x t t'. x \<in> set xs \<Longrightarrow> P t \<Longrightarrow> f x t = Inr t' \<Longrightarrow> P t'"
  shows "P s'"
  using assms
proof (induction xs arbitrary: s)
  case Nil
  then show ?case by simp
next
  case (Cons x xs)
  from Cons.prems(1) obtain t where t: "f x s = Inr t" and rest: "for_each f xs t = Inr s'"
    by (auto split: sum.splits)
  have "P t" using Cons.prems(3) [of x s t] Cons.prems(2) t by simp
  moreover have "P u'" if "z \<in> set xs" "P u" "f z u = Inr u'" for z u u'
    using Cons.prems(3) [of z u u'] that by simp
  ultimately show ?case using Cons.IH [OF rest] by blast
qed

lemma scale_nonneg: "list_all (\<lambda>v. 0 \<le> v) p \<Longrightarrow> 0 \<le> k \<Longrightarrow> list_all (\<lambda>v. 0 \<le> v) (scale p k)"
  by (induction p) (simp_all add: scale_def)

lemma vadd_nonneg:
  "list_all (\<lambda>v. 0 \<le> v) p \<Longrightarrow> list_all (\<lambda>v. 0 \<le> v) q \<Longrightarrow> list_all (\<lambda>v. 0 \<le> v) (vadd p q)"
proof (induction p arbitrary: q)
  case Nil
  then show ?case by (simp add: vadd_def)
next
  case (Cons a p)
  then show ?case by (cases q) (simp_all add: vadd_def)
qed

lemma weight_nonneg:
  assumes "weight (int x) blendWidth (int W) = Inr wt" "x < W"
  shows "0 \<le> wt"
proof -
  from assms(1) have nz: "blendWidth \<noteq> 0"
    and wt: "wt = rat_of_int (min (int x) (min blendWidth (int W - int x))) / rat_of_int blendWidth"
    by (auto simp: weight_def split: if_splits)
  show ?thesis
  proof (cases "0 < blendWidth")
    case True
    then have "0 \<le> min (int x) (min blendWidth (int W - int x))" using assms(2) by simp
    then show ?thesis using True by (simp add: wt)
  next
    case False
    with nz have neg: "blendWidth < 0" by simp
    then have "min (int x) (min blendWidth (int W - int x)) = blendWidth" using assms(2) by simp
    then show ?thesis using nz by (simp add: wt)
  qed
qed

lemma map2_add_ge:
  "length xs = length (ys :: rat list) \<Longrightarrow> list_all (\<lambda>v. 0 \<le> v) ys \<Longrightarrow> list_all2 (\<le>) xs (map2 (+) xs ys)"
  by (induction xs ys rule: list_induct2) simp_all

lemma list_all2_le_refl: "list_all2 (\<le>) (xs :: rat list) xs"
  by (simp add: list_all2_same)

lemma add_colors_ge:
  assumes "add_colors cell contrib = Inr cell'" "list_all (\<lambda>v. 0 \<le> v) contrib"
  shows "list_all2 (\<le>) cell cell'"
proof -
  let ?n = "min 3 (length cell)"
  have split: "cell = take ?n cell @ drop ?n cell" by simp
  consider (same) "length contrib = ?n" "cell' = map2 (+) (take ?n cell) contrib @ drop ?n cell"
    | (bcast) "length contrib = 1" "cell' = map (\<lambda>v. v + hd contrib) (take ?n cell) @ drop ?n cell"
    using assms(1) by (auto simp: add_colors_def Let_def split: if_splits)
  then show ?thesis
  proof cases
    case same
    have "list_all2 (\<le>) (take ?n cell) (map2 (+) (take ?n cell) contrib)"
      using same(1) assms(2) by (intro map2_add_ge) simp_all
    then have "list_all2 (\<le>) (take ?n cell @ drop ?n cell) cell'"
      unfolding same(2) by (intro list_all2_appendI list_all2_le_refl)
    then show ?thesis by simp
  next
    case bcast
    then obtain c where c: "contrib = [c]" by (cases contrib) auto
    with assms(2) have "0 \<le> c" by simp
    then have "list_all2 (\<le>) (take ?n cell) (map (\<lambda>v. v + hd contrib) (take ?n cell))"
      by (simp add: c list_all2_conv_all_nth)
    then have "list_all2 (\<le>) (take ?n cell @ drop ?n cell) cell'"
      unfolding bcast(2) by (intro list_all2_appendI list_all2_le_refl)
    then show ?thesis by simp
  qed
qed

lemma add_weight_ge:
  assumes "add_weight cell wt = Inr cell'" "0 \<le> wt"
  shows "list_all2 (\<le>) cell cell'"
  using assms
  by (auto simp: add_weight_def list_all2_conv_all_nth nth_list_update split: if_splits)

lemma wf_arr_nth:
  assumes "wf_arr a" "shape a = (H, W, C)" "y < H" "x < W"
  shows "length (cells a) = H" "length (cells a ! y) = W" "length (cells a ! y ! x) = C"
  using assms by (auto simp: wf_arr_def list_all_length)

lemma nonneg_to_unit_floats:
  assumes "nonneg_img im" "wf_arr im" "shape im = (H, W, C)" "y < H" "x < W"
  shows "list_all (\<lambda>v. 0 \<le> v) (cells (to_unit_floats im) ! y ! x)"
  using assms wf_arr_nth [OF assms(2,3,4,5)]
  by (auto simp: nonneg_img_def to_unit_floats_def list_all_length)

lemma frac_part_bounds:
  fixes r :: rat
  assumes "0 \<le> r"
  shows "0 \<le> r - of_int (py_int r)" "0 \<le> 1 - (r - of_int (py_int r))"
  using assms by (simp_all add: py_int_def) linarith+


lemma shape_to_unit_floats [simp]: "shape (to_unit_floats im) = shape im"
  by (simp add: to_unit_floats_def)

lemma bilinear_nonneg:
  assumes res: "bilinear_interpolation (to_unit_floats im) ix iy = Inr pv"
    and guard: "\<not> outside (to_unit_floats im) ix iy"
    and nn: "nonneg_img im" and wf: "wf_arr im"
  shows "list_all (\<lambda>v. 0 \<le> v) pv"
proof -
  obtain sx where ix: "ix = Finite sx" using res by (cases ix) (auto split: sum.splits)
  obtain sy where iy: "iy = Finite sy" using res ix by (cases iy) (auto split: sum.splits)
  obtain h w c where sh: "shape im = (h, w, c)" by (cases "shape im")
  then have shf: "shape (to_unit_floats im) = (h, w, c)" by simp
  have g: "\<not> outside (to_unit_floats im) (Finite sx) (Finite sy)" using guard ix iy by simp
  note b = bilinear_in_bounds_aux [OF shf g]
  note bd = inside_bounds [OF shf g]
  let ?x = "py_int sx" and ?y = "py_int sy"
  have ix0: "nat ?x < w" "nat (?x + 1) < w" and iy0: "nat ?y < h" "nat (?y + 1) < h"
    using b by auto
  have p: "list_all (\<lambda>v. 0 \<le> v) (cells (to_unit_floats im) ! nat ?y ! nat ?x)"
      "list_all (\<lambda>v. 0 \<le> v) (cells (to_unit_floats im) ! nat ?y ! nat (?x + 1))"
      "list_all (\<lambda>v. 0 \<le> v) (cells (to_unit_floats im) ! nat (?y + 1) ! nat ?x)"
      "list_all (\<lambda>v. 0 \<le> v) (cells (to_unit_floats im) ! nat (?y + 1) ! nat (?x + 1))"
    using ix0 iy0 by (auto intro: nonneg_to_unit_floats [OF nn wf sh])
  have fx: "0 \<le> sx - of_int ?x" "0 \<le> 1 - (sx - of_int ?x)"
    and fy: "0 \<le> sy - of_int ?y" "0 \<le> 1 - (sy - of_int ?y)"
    using bd frac_part_bounds by auto
  have "pv = vadd (vadd (vadd
           (scale (scale (cells (to_unit_floats im) ! nat ?y ! nat ?x) (1 - (sx - of_int ?x))) (1 - (sy - of_int ?y)))
           (scale (scale (cells (to_unit_floats im) ! nat ?y ! nat (?x + 1)) (sx - of_int ?x)) (1 - (sy - of_int ?y))))
           (scale (scale (cells (to_unit_floats im) ! nat (?y + 1) ! nat ?x) (1 - (sx - of_int ?x))) (sy - of_int ?y)))
           (scale (scale (cells (to_unit_floats im) ! nat (?y + 1) ! nat (?x + 1)) (sx - of_int ?x)) (sy - of_int ?y))"
    using res b by (simp add: ix iy Let_def)
  then show ?thesis
    using p fx fy by (simp add: vadd_nonneg scale_nonneg)
qed

lemma cell_le_trans:
  "list_all2 (\<le>) p q \<Longrightarrow> list_all2 (\<le>) q r \<Longrightarrow> list_all2 (\<le>) (p :: rat list) r"
  using list_all2_trans [of "(\<le>)" "(\<le>)" "(\<le>)" p q r] by auto

lemma row_le_trans:
  "list_all2 (list_all2 (\<le>)) p q \<Longrightarrow> list_all2 (list_all2 (\<le>)) q r \<Longrightarrow>
   list_all2 (list_all2 (\<le>)) (p :: rat list list) r"
  using list_all2_trans [of "list_all2 (\<le>)" "list_all2 (\<le>)" "list_all2 (\<le>)" p q r]
    cell_le_trans by blast

lemma blend_cell_ge:
  assumes res: "blend_cell (to_unit_floats im) inverse_M blendWidth W x y cell = Inr cell'"
    and x: "x < W" and nn: "nonneg_img im" and wf: "wf_arr im"
  shows "list_all2 (\<le>) cell cell'"
proof -
  obtain cx cy cz where mv: "mat_vec inverse_M (of_nat x, of_nat y, 1) = (cx, cy, cz)"
    by (cases "mat_vec inverse_M (of_nat x, of_nat y, 1)")
  show ?thesis
  proof (cases "outside (to_unit_floats im) (np_div cx cz) (np_div cy cz)")
    case True
    then have "cell' = cell" using res by (simp add: blend_cell_def mv)
    then show ?thesis by (simp add: list_all2_le_refl)
  next
    case False
    with res obtain pv wt c1 where
      pv: "bilinear_interpolation (to_unit_floats im) (np_div cx cz) (np_div cy cz) = Inr pv"
      and wt: "weight (int x) blendWidth (int W) = Inr wt"
      and c1: "add_colors cell (scale pv wt) = Inr c1"
      and c2: "add_weight c1 wt = Inr cell'"
      by (auto simp: blend_cell_def mv Let_def split: sum.splits)
    have w0: "0 \<le> wt" using weight_nonneg [OF wt x] .
    have "list_all (\<lambda>v. 0 \<le> v) pv" using bilinear_nonneg [OF pv False nn wf] .
    then have "list_all (\<lambda>v. 0 \<le> v) (scale pv wt)" using w0 by (rule scale_nonneg)
    then have "list_all2 (\<le>) cell c1" using add_colors_ge [OF c1] by simp
    moreover have "list_all2 (\<le>) c1 cell'" using add_weight_ge [OF c2 w0] .
    ultimately show ?thesis by (rule cell_le_trans)
  qed
qed

lemma list_all2_update_right:
  assumes "\<And>z. R z z" "i < length xs" "R (xs ! i) v"
  shows "list_all2 R xs (xs[i := v])"
  using assms by (simp add: list_all2_conv_all_nth nth_list_update)

lemma arr_le_refl: "arr_le a a"
  by (simp add: arr_le_def list_all2_same)

lemma arr_le_trans: "arr_le a b \<Longrightarrow> arr_le b c \<Longrightarrow> arr_le a c"
  using list_all2_trans [of "list_all2 (list_all2 (\<le>))" "list_all2 (list_all2 (\<le>))"
      "list_all2 (list_all2 (\<le>))" "cells a" "cells b" "cells c"] row_le_trans
  unfolding arr_le_def by auto

lemma arr_le_wf: "arr_le a b \<Longrightarrow> wf_arr a \<Longrightarrow> wf_arr b"
  by (auto simp: arr_le_def wf_arr_def list_all_length list_all2_conv_all_nth split: prod.splits)

lemma blend_pixel_ge:
  assumes res: "blend_pixel (to_unit_floats im) inverse_M blendWidth W y x a = Inr a'"
    and y: "y < length (cells a)" and x: "x < length (cells a ! y)" and xw: "x < W"
    and nn: "nonneg_img im" and wf: "wf_arr im"
  shows "arr_le a a'"
proof -
  from res obtain cell where
    c: "blend_cell (to_unit_floats im) inverse_M blendWidth W x y (cells a ! y ! x) = Inr cell"
    and a': "a' = a\<lparr>cells := (cells a)[y := (cells a ! y)[x := cell]]\<rparr>"
    by (auto simp: blend_pixel_def split: sum.splits)
  have cl: "list_all2 (\<le>) (cells a ! y ! x) cell" using blend_cell_ge [OF c xw nn wf] .
  have rl: "list_all2 (list_all2 (\<le>)) (cells a ! y) ((cells a ! y)[x := cell])"
    using list_all2_update_right [of "list_all2 (\<le>)" x "cells a ! y" cell] x cl
    by (simp add: list_all2_same)
  have "list_all2 (list_all2 (list_all2 (\<le>))) (cells a) ((cells a)[y := (cells a ! y)[x := cell]])"
    using list_all2_update_right [of "list_all2 (list_all2 (\<le>))" y "cells a"
        "(cells a ! y)[x := cell]"] y rl
    by (simp add: list_all2_same)
  then show ?thesis by (simp add: arr_le_def a')
qed

lemma arr_le_lengths:
  assumes "arr_le a b" "wf_arr a" "shape a = (H, W, K)" "y < H"
  shows "y < length (cells b)" "length (cells b ! y) = W"
proof -
  have wb: "wf_arr b" using arr_le_wf assms(1,2) .
  have sb: "shape b = (H, W, K)" using assms(1,3) by (simp add: arr_le_def)
  show "y < length (cells b)" using wb sb assms(4) by (simp add: wf_arr_def)
  show "length (cells b ! y) = W" using wb sb assms(4) by (simp add: wf_arr_def list_all_length)
qed

lemma accumulateBlend_ge:
  assumes res: "accumulateBlend im acc M blendWidth = Inr acc'"
    and wfa: "wf_arr acc" and nn: "nonneg_img im" and wf: "wf_arr im"
  shows "arr_le acc acc'"
proof -
  obtain H W K where sh: "shape acc = (H, W, K)" by (cases "shape acc")
  from res obtain Mi where
    loop: "for_each (\<lambda>y a. for_each (blend_pixel (to_unit_floats im) Mi blendWidth W y) [0..<W] a)
             [0..<H] acc = Inr acc'"
    by (auto simp: accumulateBlend_def sh Let_def split: sum.splits)
  show ?thesis
  proof (rule for_each_invariant [OF loop, where P = "arr_le acc"])
    show "arr_le acc acc" by (rule arr_le_refl)
  next
    fix y t t'
    assume y: "y \<in> set [0..<H]" and t: "arr_le acc t"
      and row: "for_each (blend_pixel (to_unit_floats im) Mi blendWidth W y) [0..<W] t = Inr t'"
    show "arr_le acc t'"
    proof (rule for_each_invariant [OF row, where P = "arr_le acc"])
      show "arr_le acc t" by (rule t)
    next
      fix x u u'
      assume x: "x \<in> set [0..<W]" and u: "arr_le acc u"
        and px: "blend_pixel (to_unit_floats im) Mi blendWidth W y x u = Inr u'"
      have yH: "y < H" and xW: "x < W" using y x by simp_all
      note len = arr_le_lengths [OF u wfa sh yH]
      have "arr_le u u'"
        using blend_pixel_ge [OF px len(1) _ xW nn wf] len(2) xW by simp
      with u show "arr_le acc u'" by (rule arr_le_trans)
    qed
  qed
qed

lemmas blend_defs = accumulateBlend_def blend_pixel_def blend_cell_def add_colors_def add_weight_def
  weight_def outside_def to_unit_floats_def np_div_def pixel_at_def np_index_def scale_def vadd_def
  py_int_def np_identity3_def sample_img_def zeros_acc_def Let_def

subsection \<open>The invariant of the accumulator\<close>

lemma add_colors_long:
  assumes "add_colors cell contrib = Inr c1" "3 < length cell"
  shows "length c1 = length cell \<and> c1 ! 3 = cell ! 3 \<and>
         (take 3 cell = [0, 0, 0] \<and> list_all (\<lambda>v. v = 0) contrib \<longrightarrow> take 3 c1 = [0, 0, 0])"
proof -
  have n: "min 3 (length cell) = 3" using assms(2) by simp
  obtain a b c rest where cell: "cell = a # b # c # rest" and rest: "rest \<noteq> []"
    using assms(2) by (cases cell; cases "tl cell"; cases "tl (tl cell)"; cases "tl (tl (tl cell))") auto
  consider (same) "length contrib = 3" "c1 = map2 (+) (take 3 cell) contrib @ drop 3 cell"
    | (bcast) "length contrib = 1" "c1 = map (\<lambda>v. v + hd contrib) (take 3 cell) @ drop 3 cell"
    using assms(1) by (auto simp: add_colors_def Let_def n split: if_splits)
  then show ?thesis
  proof cases
    case same
    then obtain p q r where contrib: "contrib = [p, q, r]"
      by (cases contrib; cases "tl contrib"; cases "tl (tl contrib)") auto
    show ?thesis using same(2) by (auto simp: cell contrib)
  next
    case bcast
    then obtain p where contrib: "contrib = [p]" by (cases contrib) auto
    show ?thesis using bcast(2) by (auto simp: cell contrib)
  qed
qed

lemma scale_zero: "list_all (\<lambda>v. v = 0) (scale pv 0)"
  by (induction pv) (simp_all add: scale_def)

lemma blend_cell_ok:
  assumes res: "blend_cell imf inverse_M blendWidth W x y cell = Inr cell'"
    and x: "x < W" and ok: "cell_ok cell"
  shows "length cell' = length cell \<and> cell_ok cell'"
proof -
  obtain cx cy cz where mv: "mat_vec inverse_M (of_nat x, of_nat y, 1) = (cx, cy, cz)"
    by (cases "mat_vec inverse_M (of_nat x, of_nat y, 1)")
  show ?thesis
  proof (cases "outside imf (np_div cx cz) (np_div cy cz)")
    case True
    then have "cell' = cell" using res by (simp add: blend_cell_def mv)
    then show ?thesis using ok by simp
  next
    case False
    with res obtain pv wt c1 where
      wt: "weight (int x) blendWidth (int W) = Inr wt"
      and c1: "add_colors cell (scale pv wt) = Inr c1"
      and c2: "add_weight c1 wt = Inr cell'"
      by (auto simp: blend_cell_def mv Let_def split: sum.splits)
    have w0: "0 \<le> wt" using weight_nonneg [OF wt x] .
    from c2 have l1: "3 < length c1" and cell': "cell' = c1[3 := c1 ! 3 + wt]"
      by (auto simp: add_weight_def split: if_splits)
    have lc: "3 < length cell"
      using c1 l1 by (auto simp: add_colors_def Let_def split: if_splits)
    note ac = add_colors_long [OF c1 lc]
    from ok lc have w: "0 \<le> cell ! 3" and z: "cell ! 3 \<noteq> 0 \<or> take 3 cell = [0, 0, 0]"
      by (auto simp: cell_ok_def)
    have len: "length cell' = length cell" using ac cell' by simp
    have w': "cell' ! 3 = cell ! 3 + wt" using ac cell' l1 by simp
    have t': "take 3 cell' = take 3 c1" using cell' by simp
    have "cell' ! 3 \<noteq> 0 \<or> take 3 cell' = [0, 0, 0]"
    proof (cases "cell' ! 3 = 0")
      case True
      with w' w w0 have "cell ! 3 = 0" "wt = 0" by linarith+
      with z ac scale_zero [of pv] show ?thesis by (simp add: t')
    qed simp
    then show ?thesis using len w' w w0 lc by (simp add: cell_ok_def)
  qed
qed

lemma list_all_update: "list_all P xs \<Longrightarrow> P v \<Longrightarrow> list_all P (xs[i := v])"
  by (induction xs arbitrary: i) (auto split: nat.splits)

lemma wf_arr_update:
  assumes wf: "wf_arr a" and sh: "shape a = (H, W, K)" and y: "y < H" and len: "length cell = K"
  shows "wf_arr (a\<lparr>cells := (cells a)[y := (cells a ! y)[x := cell]]\<rparr>)"
proof -
  let ?R = "\<lambda>row. length row = W \<and> list_all (\<lambda>px. length px = K) row"
  have all: "list_all ?R (cells a)" and h: "length (cells a) = H"
    using wf sh by (simp_all add: wf_arr_def)
  have "?R (cells a ! y)" using all h y by (simp add: list_all_length)
  then have "?R ((cells a ! y)[x := cell])" using len by (simp add: list_all_update)
  then have "list_all ?R ((cells a)[y := (cells a ! y)[x := cell]])"
    using all by (rule list_all_update [rotated])
  then show ?thesis using h sh by (simp add: wf_arr_def)
qed

lemma blend_pixel_ok:
  assumes res: "blend_pixel imf inverse_M blendWidth W y x a = Inr a'"
    and ok: "acc_ok a" and sh: "shape a = (H, W, K)" and y: "y < H" and x: "x < W"
  shows "acc_ok a' \<and> shape a' = shape a"
proof -
  from res obtain cell where
    c: "blend_cell imf inverse_M blendWidth W x y (cells a ! y ! x) = Inr cell"
    and a': "a' = a\<lparr>cells := (cells a)[y := (cells a ! y)[x := cell]]\<rparr>"
    by (auto simp: blend_pixel_def split: sum.splits)
  have wf: "wf_arr a" and all: "list_all (list_all cell_ok) (cells a)" using ok by (simp_all add: acc_ok_def)
  note l = wf_arr_nth [OF wf sh y x]
  have old: "cell_ok (cells a ! y ! x)" using all l y x by (simp add: list_all_length)
  note new = blend_cell_ok [OF c x old]
  have row: "list_all cell_ok ((cells a ! y)[x := cell])"
    using all l y new by (intro list_all_update) (simp_all add: list_all_length)
  have all': "list_all (list_all cell_ok) (cells a')"
    unfolding a' using all row by (simp add: list_all_update)
  have "wf_arr a'"
    unfolding a' using wf sh y by (rule wf_arr_update) (simp add: new l)
  then show ?thesis using all' by (simp add: acc_ok_def a')
qed

lemma accumulateBlend_ok:
  assumes res: "accumulateBlend im acc M blendWidth = Inr acc'" and ok: "acc_ok acc"
  shows "acc_ok acc' \<and> shape acc' = shape acc"
proof -
  obtain H W K where sh: "shape acc = (H, W, K)" by (cases "shape acc")
  from res obtain Mi where
    loop: "for_each (\<lambda>y a. for_each (blend_pixel (to_unit_floats im) Mi blendWidth W y) [0..<W] a)
             [0..<H] acc = Inr acc'"
    by (auto simp: accumulateBlend_def sh Let_def split: sum.splits)
  let ?P = "\<lambda>a. acc_ok a \<and> shape a = shape acc"
  show ?thesis
  proof (rule for_each_invariant [OF loop, where P = ?P])
    show "?P acc" using ok by simp
  next
    fix y t t'
    assume y: "y \<in> set [0..<H]" and t: "?P t"
      and row: "for_each (blend_pixel (to_unit_floats im) Mi blendWidth W y) [0..<W] t = Inr t'"
    show "?P t'"
    proof (rule for_each_invariant [OF row, where P = ?P])
      show "?P t" by (rule t)
    next
      fix x u u'
      assume x: "x \<in> set [0..<W]" and u: "?P u"
        and px: "blend_pixel (to_unit_floats im) Mi blendWidth W y x u = Inr u'"
      have "shape u = (H, W, K)" using u sh by simp
      from blend_pixel_ok [OF px _ this] u y x show "?P u'" by simp
    qed
  qed
qed

lemma np_zeros_ok: "np_zeros h w k = Inr a \<Longrightarrow> acc_ok a"
  by (auto simp: np_zeros_def acc_ok_def wf_arr_def cell_ok_def list_all_length numeral_3_eq_3
      split: if_splits)

lemma pasteImages_ok:
  assumes "pasteImages ipv translation blendWidth accWidth accHeight channels = Inr acc"
  shows "acc_ok acc"
proof -
  from assms obtain a0 where z: "np_zeros accHeight accWidth (channels + 1) = Inr a0"
    and loop: "for_each (\<lambda>i a. let M_trans = mat_mul translation (position i)
                             in accumulateBlend (img i) a M_trans blendWidth) ipv a0 = Inr acc"
    by (auto simp: pasteImages_def split: sum.splits)
  show ?thesis
  proof (rule for_each_invariant [OF loop, where P = acc_ok])
    show "acc_ok a0" using z by (rule np_zeros_ok)
  next
    fix i t t'
    assume "acc_ok t" "(let M_trans = mat_mul translation (position i)
                             in accumulateBlend (img i) t M_trans blendWidth) = Inr t'"
    then show "acc_ok t'" using accumulateBlend_ok by (simp add: Let_def)
  qed
qed

lemma normalize_cell_black:
  assumes "take 3 cell = [0, 0, 0]" "length cell = 4"
  shows "map (\<lambda>v. astype_uint8 (v * 255)) (normalize_cell cell) = [0, 0, 0, 255]"
proof -
  from assms obtain w where cell: "cell = [0, 0, 0, w]"
    by (cases cell; cases "tl cell"; cases "tl (tl cell)"; cases "tl (tl (tl cell))") auto
  show ?thesis by (simp add: cell normalize_cell_def astype_uint8_def py_int_def)
qed

lemmas paste_defs = pasteImages_def np_zeros_def normalizeBlend_def normalize_cell_def
  astype_uint8_def placed_def

subsection \<open>The 360 mode never returns an image\<close>

lemma blendImages_360_no_image: "blendImages ipv blendWidth True \<noteq> Inr out"
  by (auto simp: blendImages_def Let_def split: prod.splits sum.splits)

subsection \<open>The pixel loops, cell by cell\<close>

lemma ndarray_cells_id [simp]: "a\<lparr>cells := cells a\<rparr> = a"
  by simp

lemma row_progress:
  assumes "n < length row"
  shows "(map g [0..<n] @ drop n row)[n := g n] = map g [0..<Suc n] @ drop (Suc n) row"
proof -
  have "drop n row = row ! n # drop (Suc n) row" using assms by (simp add: Cons_nth_drop_Suc)
  then have "(map g [0..<n] @ drop n row)[n := g n] = map g [0..<n] @ (g n # drop (Suc n) row)"
    by (simp add: list_update_append)
  then show ?thesis by simp
qed

lemma row_next:
  assumes "n < length row"
  shows "(map g [0..<n] @ drop n row) ! n = row ! n"
  using assms by (simp add: nth_append)

lemma for_each_row_prefix:
  assumes y: "y < length (cells a)" and len: "length (cells a ! y) = W"
    and step: "\<And>x. x < W \<Longrightarrow> blend_cell imf Mi b Wc x y (cells a ! y ! x) = Inr (g x)"
    and n: "n \<le> W"
  shows "for_each (blend_pixel imf Mi b Wc y) [0..<n] a =
           Inr (a\<lparr>cells := (cells a)[y := map g [0..<n] @ drop n (cells a ! y)]\<rparr>)"
  using n
proof (induction n)
  case 0
  then show ?case by simp
next
  case (Suc n)
  then have nW: "n < W" and nrow: "n < length (cells a ! y)" using len by simp_all
  let ?an = "a\<lparr>cells := (cells a)[y := map g [0..<n] @ drop n (cells a ! y)]\<rparr>"
  have ih: "for_each (blend_pixel imf Mi b Wc y) [0..<n] a = Inr ?an" using Suc by simp
  have rowy: "cells ?an ! y = map g [0..<n] @ drop n (cells a ! y)" using y by simp
  have cell: "cells ?an ! y ! n = cells a ! y ! n" using rowy row_next [OF nrow] by simp
  have px: "blend_pixel imf Mi b Wc y n ?an =
      Inr (a\<lparr>cells := (cells a)[y := map g [0..<Suc n] @ drop (Suc n) (cells a ! y)]\<rparr>)"
    unfolding blend_pixel_def cell step [OF nW]
    using y row_progress [OF nrow, of g] by (simp add: rowy del: upt_Suc)
  show ?case
    using ih px by (simp add: for_each_append)
qed

lemma for_each_row_exact:
  assumes y: "y < length (cells a)" and len: "length (cells a ! y) = W"
    and step: "\<And>x. x < W \<Longrightarrow> blend_cell imf Mi b Wc x y (cells a ! y ! x) = Inr (g x)"
  shows "for_each (blend_pixel imf Mi b Wc y) [0..<W] a =
           Inr (a\<lparr>cells := (cells a)[y := map g [0..<W]]\<rparr>)"
  using for_each_row_prefix [OF y len step, of W] len by simp

lemma for_each_rows_prefix:
  assumes H: "length (cells a) = H" and len: "\<And>y. y < H \<Longrightarrow> length (cells a ! y) = W"
    and step: "\<And>y x. y < H \<Longrightarrow> x < W \<Longrightarrow>
                 blend_cell imf Mi b Wc x y (cells a ! y ! x) = Inr (g y x)"
    and n: "n \<le> H"
  shows "for_each (\<lambda>y acc. for_each (blend_pixel imf Mi b Wc y) [0..<W] acc) [0..<n] a =
           Inr (a\<lparr>cells := map (\<lambda>y. map (g y) [0..<W]) [0..<n] @ drop n (cells a)\<rparr>)"
  using n
proof (induction n)
  case 0
  then show ?case by simp
next
  case (Suc n)
  then have nH: "n < H" and nlen: "n < length (cells a)" using H by simp_all
  let ?G = "\<lambda>y. map (g y) [0..<W]"
  let ?an = "a\<lparr>cells := map ?G [0..<n] @ drop n (cells a)\<rparr>"
  have ih: "for_each (\<lambda>y acc. for_each (blend_pixel imf Mi b Wc y) [0..<W] acc) [0..<n] a = Inr ?an"
    using Suc by simp
  have rown: "cells ?an ! n = cells a ! n" using row_next [OF nlen, of ?G] by simp
  have ly: "n < length (cells ?an)" using nlen by simp
  have row: "for_each (blend_pixel imf Mi b Wc n) [0..<W] ?an =
      Inr (?an\<lparr>cells := (cells ?an)[n := map (g n) [0..<W]]\<rparr>)"
  proof (rule for_each_row_exact [OF ly])
    show "length (cells ?an ! n) = W" using rown len [OF nH] by simp
    show "blend_cell imf Mi b Wc x n (cells ?an ! n ! x) = Inr (g n x)" if "x < W" for x
      using step [OF nH that] rown by simp
  qed
  have "(cells ?an)[n := map (g n) [0..<W]] = map ?G [0..<Suc n] @ drop (Suc n) (cells a)"
    using row_progress [OF nlen, of ?G] by simp
  then have row': "for_each (blend_pixel imf Mi b Wc n) [0..<W] ?an =
      Inr (a\<lparr>cells := map ?G [0..<Suc n] @ drop (Suc n) (cells a)\<rparr>)"
    using row by simp
  show ?case
    using ih row' by (simp add: for_each_append)
qed

lemma accumulateBlend_exact:
  assumes wf: "wf_arr acc" and sh: "shape acc = (H, W, K)"
    and inv: "linalg_inv M = Inr Mi"
    and step: "\<And>y x. y < H \<Longrightarrow> x < W \<Longrightarrow>
        blend_cell (to_unit_floats im) Mi blendWidth W x y (cells acc ! y ! x) = Inr (g y x)"
  shows "accumulateBlend im acc M blendWidth =
           Inr (acc\<lparr>cells := map (\<lambda>y. map (g y) [0..<W]) [0..<H]\<rparr>)"
proof -
  have H: "length (cells acc) = H" and len: "\<And>y. y < H \<Longrightarrow> length (cells acc ! y) = W"
    using wf sh by (simp_all add: wf_arr_def list_all_length)
  show ?thesis
    using for_each_rows_prefix [OF H len step le_refl] H
    by (simp add: accumulateBlend_def sh inv)
qed

subsection \<open>One image placed by the identity\<close>

lemma py_int_of_int [simp]: "py_int (rat_of_int n) = n"
  by (simp add: py_int_def)

lemma py_int_of_nat [simp]: "py_int (rat_of_nat n) = int n"
  using py_int_of_int [of "int n"] by simp

lemma linalg_inv_identity [simp]: "linalg_inv np_identity3 = Inr np_identity3"
  by (simp add: np_identity3_def)

lemma mat_mul_identity [simp]: "mat_mul np_identity3 M = M"
  by (cases M) (simp add: np_identity3_def)

lemma mat_vec_identity [simp]: "mat_vec np_identity3 v = v"
  by (cases v) (simp add: np_identity3_def)

lemma pixel3:
  assumes "wf_arr a" "shape a = (H, W, 3)" "y < H" "x < W"
  shows "\<exists>r g b. cells a ! y ! x = [r, g, b]"
proof -
  have "length (cells a ! y ! x) = 3" using wf_arr_nth(3) [OF assms] .
  then show ?thesis
    by (cases "cells a ! y ! x"; cases "tl (cells a ! y ! x)"; cases "tl (tl (cells a ! y ! x))") auto
qed

lemma wf_to_unit_floats: "wf_arr im \<Longrightarrow> wf_arr (to_unit_floats im)"
  by (auto simp: wf_arr_def to_unit_floats_def list_all_length split: prod.splits)

lemma cells_to_unit_floats:
  assumes "wf_arr im" "shape im = (H, W, C)" "y < H" "x < W"
  shows "cells (to_unit_floats im) ! y ! x = map (\<lambda>v. rat_of_int v / 255) (cells im ! y ! x)"
  using wf_arr_nth(1,2) [OF assms] assms(3,4) by (simp add: to_unit_floats_def)

lemma bilinear_at_pixel:
  assumes wf: "wf_arr im" and sh: "shape im = (H, W, 3)" and x: "Suc x < W" and y: "Suc y < H"
  shows "bilinear_interpolation (to_unit_floats im) (Finite (of_nat x)) (Finite (of_nat y)) =
           Inr (map (\<lambda>v. rat_of_int v / 255) (cells im ! y ! x))"
proof -
  let ?f = "to_unit_floats im"
  have wff: "wf_arr ?f" using wf by (rule wf_to_unit_floats)
  have shf: "shape ?f = (H, W, 3)" using sh by simp
  have x0: "x < W" and y0: "y < H" using x y by simp_all
  obtain a0 a1 a2 where p00: "cells ?f ! y ! x = [a0, a1, a2]"
    using pixel3 [OF wff shf y0 x0] by blast
  obtain b0 b1 b2 where p01: "cells ?f ! y ! Suc x = [b0, b1, b2]"
    using pixel3 [OF wff shf y0 x] by blast
  obtain c0 c1 c2 where p10: "cells ?f ! Suc y ! x = [c0, c1, c2]"
    using pixel3 [OF wff shf y x0] by blast
  obtain d0 d1 d2 where p11: "cells ?f ! Suc y ! Suc x = [d0, d1, d2]"
    using pixel3 [OF wff shf y x] by blast
  have r00: "pixel_at ?f (int y) (int x) = Inr [a0, a1, a2]"
    using pixel_at_in_range [OF shf, of "int y" "int x"] x0 y0 p00 by simp
  have r01: "pixel_at ?f (int y) (int x + 1) = Inr [b0, b1, b2]"
    using pixel_at_in_range [OF shf, of "int y" "int x + 1"] x y0 p01 by (simp add: nat_add_distrib)
  have r10: "pixel_at ?f (int y + 1) (int x) = Inr [c0, c1, c2]"
    using pixel_at_in_range [OF shf, of "int y + 1" "int x"] x0 y p10 by (simp add: nat_add_distrib)
  have r11: "pixel_at ?f (int y + 1) (int x + 1) = Inr [d0, d1, d2]"
    using pixel_at_in_range [OF shf, of "int y + 1" "int x + 1"] x y p11 by (simp add: nat_add_distrib)
  have "bilinear_interpolation ?f (Finite (of_nat x)) (Finite (of_nat y)) = Inr [a0, a1, a2]"
    by (simp add: r00 r01 r10 r11 scale_def vadd_def)
  then show ?thesis using p00 cells_to_unit_floats [OF wf sh y0 x0] by simp
qed

lemma blend_cell_identity:
  assumes wf: "wf_arr im" and sh: "shape im = (H, W, 3)" and x: "Suc x < W" and y: "Suc y < H"
    and b: "blendWidth \<noteq> 0"
    and wt: "wt = rat_of_int (min (int x) (min blendWidth (int Wc - int x))) / rat_of_int blendWidth"
  shows "blend_cell (to_unit_floats im) np_identity3 blendWidth Wc x y [0, 0, 0, 0] =
           Inr (map (\<lambda>v. rat_of_int v / 255 * wt) (cells im ! y ! x) @ [wt])"
proof -
  have x0: "x < W" and y0: "y < H" using x y by simp_all
  obtain r g bl where px: "cells im ! y ! x = [r, g, bl]" using pixel3 [OF wf sh y0 x0] by blast
  have out: "\<not> outside (to_unit_floats im) (Finite (of_nat x)) (Finite (of_nat y))"
    using x y by (simp add: outside_def sh)
  have w: "weight (int x) blendWidth (int Wc) = Inr wt" using b wt by (simp add: weight_def)
  show ?thesis
    using out by (simp add: blend_cell_def np_div_def bilinear_at_pixel [OF wf sh x y] w px
        add_colors_def add_weight_def scale_def del: bilinear_interpolation.simps)
qed

lemma warpPerspective_identity_same:
  assumes wf: "wf_arr src" and sh: "shape src = (H, W, K)" and pos: "0 < H" "0 < W" "0 < K"
  shows "warpPerspective_identity src (int W, int H) = Inr src"
proof -
  have H: "length (cells src) = H" and len: "\<And>y. y < H \<Longrightarrow> length (cells src ! y) = W"
    using wf sh by (simp_all add: wf_arr_def list_all_length)
  have "map (\<lambda>y. map (\<lambda>x. if y < H \<and> x < W then cells src ! y ! x else replicate K 0) [0..<W]) [0..<H]
          = cells src"
    using H len by (auto intro!: nth_equalityI)
  then show ?thesis using pos sh by (simp add: warpPerspective_identity_def)
qed

lemma normalize_touched:
  assumes wt: "1 / 10 ^ 8 \<le> wt" and r: "0 \<le> r" "r \<le> 255" and g: "0 \<le> g" "g \<le> 255"
    and b: "0 \<le> b" "b \<le> 255"
  shows "map (\<lambda>v. astype_uint8 (v * 255))
           (normalize_cell (map (\<lambda>v. rat_of_int v / 255 * wt) [r, g, b] @ [wt])) = [r, g, b, 255]"
proof -
  define M where "M = max wt (1 / 10 ^ 8)"
  have pos: "0 < wt" using wt by (rule less_le_trans [rotated]) simp
  have M: "M = wt" using wt by (simp add: M_def max_def)
  have n: "normalize_cell [p, q, s, wt] = [p / M, q / M, s / M, 1]" for p q s
    unfolding M_def by (simp add: normalize_cell_def)
  have v: "astype_uint8 (rat_of_int v / 255 * wt / M * 255) = v" if "0 \<le> v" "v \<le> 255" for v
  proof -
    have "rat_of_int v / 255 * wt / M * 255 = rat_of_int v" using pos M by simp
    then show ?thesis using that by (simp add: astype_uint8_def)
  qed
  have one: "astype_uint8 (1 * 255) = 255" by (simp add: astype_uint8_def py_int_def)
  show ?thesis
    by (simp only: list.map append.simps n v [OF r] v [OF g] v [OF b] one)
qed

lemma hat_weight_floor:
  assumes x: "0 < x" "x < Wc" and b: "0 < blendWidth" "blendWidth \<le> 10 ^ 8"
  shows "1 / 10 ^ 8 \<le> rat_of_int (min (int x) (min blendWidth (int Wc - int x))) / rat_of_int blendWidth"
proof -
  define m where "m = min (int x) (min blendWidth (int Wc - int x))"
  define q where "q = rat_of_int blendWidth"
  define p where "p = rat_of_int m"
  have m: "1 \<le> m" using x b by (simp add: m_def)
  have p1: "1 \<le> p" unfolding p_def using m by simp
  have q0: "0 < q" unfolding q_def using b(1) by simp
  have "rat_of_int blendWidth \<le> rat_of_int (10 ^ 8)" using b(2) by (simp only: of_int_le_iff)
  then have q8: "q \<le> 10 ^ 8" unfolding q_def by simp
  have "q * 1 \<le> 10 ^ 8 * p" using q8 p1 q0 by (intro mult_mono) simp_all
  then have "1 / 10 ^ 8 \<le> p / q" using q0 by (simp add: field_simps)
  then show ?thesis unfolding p_def q_def m_def .
qed

lemma py_int_zero [simp]: "py_int 0 = 0"
  by (simp add: py_int_def)

lemma getAccSize_single_identity:
  assumes sh: "shape (img i) = (H, W, C)" and pos: "position i = np_identity3"
    and H: "1 \<le> H" and W: "1 \<le> W"
  shows "getAccSize [i] = (int W - 1, int H - 1, int C, int W, np_identity3)"
proof -
  have tc: "transformed_corners (img i) np_identity3 =
      [(0, 0), (0, of_int (int H - 1)), (of_int (int W - 1), of_int (int H - 1)), (of_int (int W - 1), 0)]"
    by (simp add: transformed_corners_def sh perspectiveTransform_def np_identity3_def FLT_EPSILON_def)
  have h: "0 \<le> rat_of_int (int H - 1)" and w: "0 \<le> rat_of_int (int W - 1)"
    using H W by simp_all
  have bb: "imageBoundingBox (img i) np_identity3 = (0, 0, int W - 1, int H - 1)"
    using h w H W by (auto simp: imageBoundingBox_def tc np_min_def np_max_def min_def max_def Let_def
        simp del: of_int_diff)
  show ?thesis
    using H W
    by (simp add: getAccSize_def getAccSize_step_def sh pos bb [unfolded np_identity3_def]
        sys_maxsize_def np_identity3_def)
qed

lemma wf_zeros_acc: "wf_arr (zeros_acc H W K)"
  by (simp add: wf_arr_def zeros_acc_def list_all_length)

lemma cells_zeros_acc: "y < H \<Longrightarrow> x < W \<Longrightarrow> cells (zeros_acc H W K) ! y ! x = replicate K 0"
  by (simp add: zeros_acc_def)

lemma np_zeros_nat: "np_zeros (int H) (int W) (int K) = Inr (zeros_acc H W K)"
  by (simp add: np_zeros_def zeros_acc_def)

lemma length_normalize_cell4: "length cell = 4 \<Longrightarrow> length (normalize_cell cell) = 4"
  by (cases cell; cases "tl cell"; cases "tl (tl cell)"; cases "tl (tl (tl cell))")
    (auto simp: normalize_cell_def)

section \<open>Theorems\<close>

subsection \<open>C2: symmetry of the hat weight\<close>

text \<open>
  C2, as stated: weight(x) = weight(W - 1 - x) for every column x of a canvas of width W.
  It fails: on a canvas of width 10 with blendWidth 5 the first column has weight 0 and
  the last column, 9, has weight min(9, 5, 1) / 5 = 1/5.
\<close>

theorem weight_mirror_columns_counterexample:
  "weight 0 5 10 = Inr 0 \<and> weight (10 - 1 - 0) 5 10 = Inr (1 / 5) \<and>
   weight 0 5 10 \<noteq> weight (10 - 1 - 0) 5 10"
  by (simp add: weight_def)

text \<open>
  C2, amended: the hat is symmetric about W / 2, not about (W - 1) / 2: for every canvas
  width W, every blendWidth and every x, the weight at x equals the weight at W - x (for
  a zero blendWidth both raise ZeroDivisionError).
\<close>

theorem weight_symmetric_about_half_width:
  "weight x blendWidth W = weight (W - x) blendWidth W"
  by (simp add: weight_def min.commute min.left_commute)

theorem weight_symmetric_about_half_width_witness:
  "weight 3 5 10 = weight (10 - 3) 5 10 \<and> weight 3 5 10 = Inr (3 / 5)"
  using weight_symmetric_about_half_width [of 3 5 10] by (simp add: weight_def)

subsection \<open>C5: the canvas and the bounding boxes of the images\<close>




subsection \<open>C6: the canvas of two 100x100 images, the second moved 50 pixels right\<close>

text \<open>
  C6, as stated: getAccSize returns width 150 and height 100. It fails: the corners are
  taken at W - 1 and H - 1 (line 32), so the boxes are [0, 99] and [50, 149] and the
  canvas is 149 wide and 99 high.
\<close>

theorem getAccSize_two_images_counterexample:
  "getAccSize [placed (const_img 100 100 3 0) np_identity3,
               placed (const_img 100 100 3 0) (shift 50 0)] =
     (149, 99, 3, 100, Mat3 1 0 0  0 1 0  0 0 1) \<and>
   fst (getAccSize [placed (const_img 100 100 3 0) np_identity3,
                    placed (const_img 100 100 3 0) (shift 50 0)]) \<noteq> 150"
  by (simp add: geom_defs)

text \<open>
  C6, amended: for two 100x100, 3-channel images where B is placed 50 pixels to the right
  of A by a pure translation (A by the identity), getAccSize returns canvas width 149 and
  canvas height 99 (with 3 channels, image width 100 and the identity as translation).
\<close>

theorem getAccSize_two_images:
  "shape (img A) = (100, 100, 3) \<Longrightarrow> shape (img B) = (100, 100, 3) \<Longrightarrow>
   position A = np_identity3 \<Longrightarrow> position B = Mat3 1 0 50  0 1 0  0 0 1 \<Longrightarrow>
   getAccSize [A, B] = (149, 99, 3, 100, Mat3 1 0 0  0 1 0  0 0 1)"
  by (simp add: geom_defs)

theorem getAccSize_two_images_witness:
  "getAccSize [placed (const_img 100 100 3 7) np_identity3,
               placed (const_img 100 100 3 9) (shift 50 0)] =
     (149, 99, 3, 100, Mat3 1 0 0  0 1 0  0 0 1)"
  using getAccSize_two_images [of "placed (const_img 100 100 3 7) np_identity3"
      "placed (const_img 100 100 3 9) (shift 50 0)"]
  by (simp add: const_img_def placed_def shift_def np_identity3_def)

subsection \<open>C7: the sampler reads inside the image under the skip test\<close>

text \<open>
  C7: for a pixel whose source coordinates (srcX, srcY) pass the skip test of line 82,
  that is 0 <= srcX < imageWidth - 1 and 0 <= srcY < imageHeight - 1, the four indices
  bilinear_interpolation reads, (x_0, y_0), (x_0 + 1, y_0), (x_0, y_0 + 1) and
  (x_0 + 1, y_0 + 1) with x_0 = int(srcX) and y_0 = int(srcY), lie inside the image: each
  read returns the pixel at that index and the sampler returns a value, so no read is out
  of bounds.
\<close>

theorem bilinear_reads_in_bounds:
  assumes "shape im = (h, w, c)"
    and "\<not> outside im (Finite sx) (Finite sy)"
  shows "0 \<le> py_int sx \<and> py_int sx + 1 < int w \<and> 0 \<le> py_int sy \<and> py_int sy + 1 < int h \<and>
         pixel_at im (py_int sy) (py_int sx) = Inr (cells im ! nat (py_int sy) ! nat (py_int sx)) \<and>
         pixel_at im (py_int sy) (py_int sx + 1) = Inr (cells im ! nat (py_int sy) ! nat (py_int sx + 1)) \<and>
         pixel_at im (py_int sy + 1) (py_int sx) = Inr (cells im ! nat (py_int sy + 1) ! nat (py_int sx)) \<and>
         pixel_at im (py_int sy + 1) (py_int sx + 1) =
           Inr (cells im ! nat (py_int sy + 1) ! nat (py_int sx + 1)) \<and>
         (\<exists>v. bilinear_interpolation im (Finite sx) (Finite sy) = Inr v)"
  using assms by (rule bilinear_in_bounds_aux)

theorem bilinear_reads_in_bounds_witness:
  "\<not> outside (to_unit_floats sample_img) (Finite (5 / 2)) (Finite (1 / 2)) \<and>
   py_int (5 / 2) = 2 \<and> py_int (1 / 2) = 0 \<and>
   pixel_at (to_unit_floats sample_img) (py_int (1 / 2) + 1) (py_int (5 / 2) + 1) =
     Inr [101 / 255, 111 / 255, 121 / 255] \<and>
   (\<exists>v. bilinear_interpolation (to_unit_floats sample_img) (Finite (5 / 2)) (Finite (1 / 2)) = Inr v)"
  using bilinear_reads_in_bounds [of "to_unit_floats sample_img" 3 4 3 "5 / 2" "1 / 2"]
  by (simp add: to_unit_floats_def sample_img_def outside_def py_int_def pixel_at_def np_index_def)

subsection \<open>C8: the drift parameters\<close>

text \<open>
  C8, as stated: (x_init, y_init) is the canvas position of the midpoint of the first
  image's left edge and (x_final, y_final) that of the midpoint of the last image's right
  edge. It fails: for two 3x4 images, the second moved 2 pixels right, with the identity
  as translation and width 4, the code returns (2, 0) and (4, 0), while the edge
  midpoints map to (0, 1) and (5, 1).
\<close>

theorem getDriftParams_edge_midpoints_counterexample:
  "getDriftParams [placed sample_img np_identity3, placed sample_img (shift 2 0)] np_identity3 4 =
     Inr (Finite 2, Finite 0, Finite 4, Finite 0) \<and>
   canvas_point np_identity3 np_identity3 (spec_left_edge_midpoint sample_img) = (Finite 0, Finite 1) \<and>
   canvas_point np_identity3 (shift 2 0) (spec_right_edge_midpoint sample_img) = (Finite 5, Finite 1)"
  by (simp add: getDriftParams_def getDriftParams_step_def canvas_point_def spec_left_edge_midpoint_def
      spec_right_edge_midpoint_def sample_img_def placed_def shift_def np_identity3_def np_div_def
      enumerate_eq_zip upt_rec)

text \<open>
  C8, amended: for every image list with at least one image, getDriftParams returns as
  (x_init, y_init) the canvas position of the point (width / 2, 0) of the first image,
  the midpoint of its top edge for the width passed in, mapped through the translation
  composed with its placement and dehomogenized, and as (x_final, y_final) the canvas
  position of the same point (width / 2, 0) of the last image.
\<close>

theorem getDriftParams_top_edge_midpoints:
  assumes "ipv \<noteq> []"
  shows "getDriftParams ipv translation width =
    Inr (fst (canvas_point translation (position (hd ipv)) (1 / 2 * rat_of_int width, 0, 1)),
         snd (canvas_point translation (position (hd ipv)) (1 / 2 * rat_of_int width, 0, 1)),
         fst (canvas_point translation (position (last ipv)) (1 / 2 * rat_of_int width, 0, 1)),
         snd (canvas_point translation (position (last ipv)) (1 / 2 * rat_of_int width, 0, 1)))"
  using assms by (rule getDriftParams_nonempty)

theorem getDriftParams_top_edge_midpoints_witness:
  "getDriftParams [placed sample_img np_identity3, placed sample_img (shift 7 3),
                   placed sample_img (shift 2 (1 / 2))] (shift 1 1) 4 =
     Inr (Finite 3, Finite 1, Finite 5, Finite (3 / 2))"
  using getDriftParams_top_edge_midpoints [of "[placed sample_img np_identity3,
      placed sample_img (shift 7 3), placed sample_img (shift 2 (1 / 2))]" "shift 1 1" 4]
  by (simp add: canvas_point_def placed_def shift_def np_identity3_def np_div_def)

subsection \<open>C3: composing no image\<close>

text \<open>
  C3, as stated: getAccSize applied to the empty list signals an EmptyInputError instead
  of returning a canvas geometry. It fails: the loop of getAccSize does not run and the
  function returns the geometry built from the initial values: width and height
  0 - sys.maxsize, channels -1, width -1.
\<close>

theorem getAccSize_empty_counterexample:
  "getAccSize [] = (- sys_maxsize, - sys_maxsize, - 1, - 1,
     Mat3 1 0 (of_int (- sys_maxsize))  0 1 (of_int (- sys_maxsize))  0 0 1)"
  by (simp add: getAccSize_def)

text \<open>
  C3, amended: getAccSize applied to the empty list signals nothing: its width and height
  are negative and its channel count is -1; blendImages applied to the empty list then
  fails, for every blendWidth and mode, with the ValueError that np.zeros raises in
  pasteImages on the negative dimensions.
\<close>

theorem blendImages_empty_fails:
  "fst (getAccSize []) < 0 \<and> fst (snd (getAccSize [])) < 0 \<and> fst (snd (snd (getAccSize []))) = - 1 \<and>
   blendImages [] blendWidth is360 = Inl ValueError"
  by (simp add: blendImages_def getAccSize_def pasteImages_def np_zeros_def sys_maxsize_def)

theorem blendImages_empty_fails_witness:
  "blendImages [] 20 False = Inl ValueError \<and> blendImages [] 20 True = Inl ValueError"
  using blendImages_empty_fails [of 20 False] blendImages_empty_fails [of 20 True] by simp

subsection \<open>C10: accumulateBlend never lowers a cell of the accumulator\<close>

text \<open>
  C10: for every image without negative pixel values and every accumulator, when
  accumulateBlend returns, every cell of the accumulator (colour channels and weight
  channel) is at least what it was before the call, and the shape is unchanged. The
  weight min(x, blendWidth, W - x) / blendWidth is not negative for a column x of the
  canvas (for a positive blendWidth, and equal to 1 for a negative one), and each colour
  contribution is a sample that is not negative times that weight.
\<close>

theorem accumulateBlend_non_decreasing:
  assumes "accumulateBlend im acc M blendWidth = Inr acc'"
    and "wf_arr acc" and "wf_arr im" and "nonneg_img im"
    and "shape acc = (H, W, K)"
  shows "shape acc' = shape acc \<and> wf_arr acc' \<and>
         (\<forall>y<H. \<forall>x<W. \<forall>c<K. cells acc ! y ! x ! c \<le> cells acc' ! y ! x ! c)"
proof -
  have le: "arr_le acc acc'" using accumulateBlend_ge [OF assms(1,2,4,3)] .
  have wf': "wf_arr acc'" using arr_le_wf [OF le assms(2)] .
  have "cells acc ! y ! x ! c \<le> cells acc' ! y ! x ! c" if "y < H" "x < W" "c < K" for y x c
  proof -
    note l = wf_arr_nth [OF assms(2,5) that(1,2)]
    have "list_all2 (list_all2 (\<le>)) (cells acc ! y) (cells acc' ! y)"
      using le l(1) that(1) by (simp add: arr_le_def list_all2_conv_all_nth)
    then have "list_all2 (\<le>) (cells acc ! y ! x) (cells acc' ! y ! x)"
      using l(2) that(2) by (simp add: list_all2_conv_all_nth)
    then show ?thesis using l(3) that(3) by (simp add: list_all2_conv_all_nth)
  qed
  then show ?thesis using le wf' by (simp add: arr_le_def)
qed

theorem accumulateBlend_non_decreasing_witness:
  "accumulateBlend sample_img (zeros_acc 2 3 4) np_identity3 2 =
     Inr \<lparr>shape = (2, 3, 4),
          cells = [[[0, 0, 0, 0], [4 / 51, 5 / 51, 2 / 17, 1 / 2], [7 / 51, 8 / 51, 3 / 17, 1 / 2]],
                   [[0, 0, 0, 0], [41 / 510, 1 / 10, 61 / 510, 1 / 2],
                    [71 / 510, 27 / 170, 91 / 510, 1 / 2]]]\<rparr> \<and>
   wf_arr (zeros_acc 2 3 4) \<and> wf_arr sample_img \<and> nonneg_img sample_img \<and>
   cells (zeros_acc 2 3 4) ! 1 ! 2 ! 3 \<le> 1 / 2"
proof -
  let ?out = "\<lparr>shape = (2, 3, 4),
          cells = [[[0, 0, 0, 0], [4 / 51, 5 / 51, 2 / 17, 1 / 2], [7 / 51, 8 / 51, 3 / 17, 1 / 2]],
                   [[0, 0, 0, 0], [41 / 510, 1 / 10, 61 / 510, 1 / 2],
                    [71 / 510, 27 / 170, 91 / 510, 1 / 2 :: rat]]]\<rparr>"
  have e: "accumulateBlend sample_img (zeros_acc 2 3 4) np_identity3 2 = Inr ?out"
    by (simp add: blend_defs upt_rec numeral_2_eq_2 numeral_3_eq_3)
  have h: "wf_arr (zeros_acc 2 3 4)" "wf_arr sample_img" "nonneg_img sample_img"
    "shape (zeros_acc 2 3 4) = (2, 3, 4)"
    by (simp_all add: wf_arr_def nonneg_img_def zeros_acc_def sample_img_def numeral_2_eq_2 numeral_3_eq_3)
  from accumulateBlend_non_decreasing [OF e h(1,2,3,4)]
  have "\<forall>y<2. \<forall>x<3. \<forall>c<4. cells (zeros_acc 2 3 4) ! y ! x ! c \<le> cells ?out ! y ! x ! c"
    by simp
  then have "cells (zeros_acc 2 3 4) ! 1 ! 2 ! 3 \<le> cells ?out ! 1 ! 2 ! 3"
    by (meson less_numeral_extra one_less_numeral_iff semiring_norm numeral_less_iff)
  then show ?thesis using e h by simp
qed

subsection \<open>C9: a pixel of weight 0 is normalized to opaque black\<close>

text \<open>
  C9: in an accumulation buffer built by pasteImages (three colour channels and the
  weight channel), for every pixel whose weight channel is 0, as it is where no image
  contributed, normalizeBlend returns and gives the colour channels 0 and the fourth
  channel 255; the divisor max(weight, 1e-8) is positive, so nothing is divided by zero.
\<close>

theorem normalizeBlend_zero_weight_black:
  assumes paste: "pasteImages ipv translation blendWidth accWidth accHeight channels = Inr acc"
    and sh: "shape acc = (H, W, 4)" and y: "y < H" and x: "x < W"
    and zero: "cells acc ! y ! x ! 3 = 0"
  shows "\<exists>out. normalizeBlend acc = Inr out \<and> shape out = (H, W, 4) \<and>
           cells out ! y ! x = [0, 0, 0, 255] \<and>
           0 < max (cells acc ! y ! x ! 3) (1 / 10 ^ 8)"
proof -
  have ok: "acc_ok acc" using paste by (rule pasteImages_ok)
  then have wf: "wf_arr acc" and all: "list_all (list_all cell_ok) (cells acc)"
    by (simp_all add: acc_ok_def)
  note l = wf_arr_nth [OF wf sh y x]
  let ?out = "\<lparr>shape = (H, W, 4),
      cells = map (map (\<lambda>cell. map (\<lambda>v. astype_uint8 (v * 255)) (normalize_cell cell))) (cells acc)\<rparr>"
  have norm: "normalizeBlend acc = Inr ?out" by (simp add: normalizeBlend_def sh)
  have "cell_ok (cells acc ! y ! x)" using all l y x by (simp add: list_all_length)
  then have t: "take 3 (cells acc ! y ! x) = [0, 0, 0]" using zero l by (auto simp: cell_ok_def)
  have "cells ?out ! y ! x = map (\<lambda>v. astype_uint8 (v * 255)) (normalize_cell (cells acc ! y ! x))"
    using l y x by simp
  then have "cells ?out ! y ! x = [0, 0, 0, 255]" using normalize_cell_black [OF t l(3)] by simp
  then show ?thesis using norm zero by (intro exI [of _ ?out]) simp
qed

theorem normalizeBlend_zero_weight_black_witness:
  "\<exists>acc out. pasteImages [placed sample_img np_identity3] np_identity3 2 4 2 3 = Inr acc \<and>
      cells acc ! 1 ! 3 = [0, 0, 0, 0] \<and> cells acc ! 1 ! 2 = [71 / 255, 27 / 85, 91 / 255, 1] \<and>
      normalizeBlend acc = Inr out \<and> cells out ! 1 ! 3 = [0, 0, 0, 255]"
proof -
  let ?acc = "\<lparr>shape = (2, 4, 4),
     cells = [[[0, 0, 0, 0], [4 / 51, 5 / 51, 2 / 17, 1 / 2], [14 / 51, 16 / 51, 6 / 17, 1], [0, 0, 0, 0]],
              [[0, 0, 0, 0], [41 / 510, 1 / 10, 61 / 510, 1 / 2], [71 / 255, 27 / 85, 91 / 255, 1],
               [0, 0, 0, 0 :: rat]]]\<rparr>"
  have p: "pasteImages [placed sample_img np_identity3] np_identity3 2 4 2 3 = Inr ?acc"
    by (simp add: paste_defs blend_defs upt_rec numeral_2_eq_2 numeral_3_eq_3 eval_nat_numeral)
  from normalizeBlend_zero_weight_black [OF p, of 2 4 1 3]
  obtain out where "normalizeBlend ?acc = Inr out" "cells out ! 1 ! 3 = [0, 0, 0, 255]"
    by auto
  with p show ?thesis by (intro exI [of _ ?acc] exI [of _ out]) simp
qed

subsection \<open>C4: the 360 mode\<close>

text \<open>
  C4, as stated: for every non-empty image list, blendImages with is360=true raises a
  typed "not implemented" condition, distinct from ordinary runtime failures. It fails:
  the raise of line 245 comes after the composition, so for a 3x4 image with the
  singular placement (x, y) -> (x, x) the call raises numpy's LinAlgError, and for a 3x3
  image with one channel it raises IndexError (line 90 reads channel 3 of a 2-channel
  accumulator).
\<close>

theorem blendImages_360_counterexample:
  "blendImages [placed sample_img (Mat3 1 0 0  1 0 0  0 0 1)] 2 True = Inl LinAlgError \<and>
   blendImages [placed (const_img 3 3 1 5) np_identity3] 2 True = Inl IndexError"
  by (simp add: blendImages_def geom_defs paste_defs blend_defs upt_rec numeral_2_eq_2 numeral_3_eq_3
      eval_nat_numeral)

text \<open>
  C4, amended: for every non-empty image list on which getAccSize, pasteImages and
  normalizeBlend raise nothing, blendImages with is360=true raises
  Exception("TODO 12 in blend.py not implemented"), Python's base exception class with
  that message, after the composition and before the warp, so that no output image is
  produced.
\<close>

theorem blendImages_360_raises_generic:
  assumes "ipv \<noteq> []"
    and "getAccSize ipv = (accWidth, accHeight, channels, width, translation)"
    and "pasteImages ipv translation blendWidth accWidth accHeight channels = Inr acc"
    and "normalizeBlend acc = Inr compImage"
  shows "blendImages ipv blendWidth True = Inl (PyException ''TODO 12 in blend.py not implemented'')"
  using assms(2,3,4) getDriftParams_nonempty [OF assms(1), of translation width]
  by (simp add: blendImages_def)

theorem blendImages_360_raises_generic_witness:
  "blendImages [placed sample_img np_identity3] 2 True =
     Inl (PyException ''TODO 12 in blend.py not implemented'')"
proof -
  let ?acc = "\<lparr>shape = (2, 3, 4),
          cells = [[[0, 0, 0, 0], [4 / 51, 5 / 51, 2 / 17, 1 / 2], [7 / 51, 8 / 51, 3 / 17, 1 / 2]],
                   [[0, 0, 0, 0], [41 / 510, 1 / 10, 61 / 510, 1 / 2],
                    [71 / 510, 27 / 170, 91 / 510, 1 / 2 :: rat]]]\<rparr>"
  let ?comp = "\<lparr>shape = (2, 3, 4),
        cells = [[[0, 0, 0, 255], [40, 50, 60, 255], [70, 80, 90, 255]],
                 [[0, 0, 0, 255], [41, 51, 61, 255], [71, 81, 91, 255 :: int]]]\<rparr>"
  have g: "getAccSize [placed sample_img np_identity3] = (3, 2, 3, 4, Mat3 1 0 0  0 1 0  0 0 1)"
    by (simp add: geom_defs sample_img_def)
  have p: "pasteImages [placed sample_img np_identity3] (Mat3 1 0 0  0 1 0  0 0 1) 2 3 2 3 = Inr ?acc"
    by (simp add: paste_defs blend_defs upt_rec numeral_2_eq_2 numeral_3_eq_3 eval_nat_numeral)
  have n: "normalizeBlend ?acc = Inr ?comp"
    by (simp add: paste_defs py_int_def)
  show ?thesis
    by (rule blendImages_360_raises_generic [OF _ g p n]) simp
qed

subsection \<open>C1: one image placed by the identity\<close>

text \<open>
  C1, as stated: for one image with the identity placement, blendImages with is360=false
  returns a mosaic of the width and height of the input whose pixels have the colours of
  the input pixels. It fails: for a 3x4 image with three channels (blendWidth 2) the
  mosaic is 2 high and 3 wide with four channels, and its column 0 is black, where the
  input has (10, 20, 30) at the origin.
\<close>

theorem blendImages_single_identity_counterexample:
  "blendImages [placed sample_img np_identity3] 2 False =
     Inr \<lparr>shape = (2, 3, 4),
          cells = [[[0, 0, 0, 255], [40, 50, 60, 255], [70, 80, 90, 255]],
                   [[0, 0, 0, 255], [41, 51, 61, 255], [71, 81, 91, 255]]]\<rparr> \<and>
   shape sample_img = (3, 4, 3) \<and> cells sample_img ! 0 ! 0 = [10, 20, 30]"
proof -
  let ?acc = "\<lparr>shape = (2, 3, 4),
          cells = [[[0, 0, 0, 0], [4 / 51, 5 / 51, 2 / 17, 1 / 2], [7 / 51, 8 / 51, 3 / 17, 1 / 2]],
                   [[0, 0, 0, 0], [41 / 510, 1 / 10, 61 / 510, 1 / 2],
                    [71 / 510, 27 / 170, 91 / 510, 1 / 2 :: rat]]]\<rparr>"
  let ?comp = "\<lparr>shape = (2, 3, 4),
        cells = [[[0, 0, 0, 255], [40, 50, 60, 255], [70, 80, 90, 255]],
                 [[0, 0, 0, 255], [41, 51, 61, 255], [71, 81, 91, 255 :: int]]]\<rparr>"
  have g: "getAccSize [placed sample_img np_identity3] = (3, 2, 3, 4, Mat3 1 0 0  0 1 0  0 0 1)"
    by (simp add: geom_defs sample_img_def)
  have p: "pasteImages [placed sample_img np_identity3] (Mat3 1 0 0  0 1 0  0 0 1) 2 3 2 3 = Inr ?acc"
    by (simp add: paste_defs blend_defs upt_rec numeral_2_eq_2 numeral_3_eq_3 eval_nat_numeral)
  have n: "normalizeBlend ?acc = Inr ?comp"
    by (simp add: paste_defs py_int_def)
  have d: "getDriftParams [placed sample_img np_identity3] (Mat3 1 0 0  0 1 0  0 0 1) 4 =
      Inr (Finite 2, Finite 0, Finite 2, Finite 0)"
    by (simp add: getDriftParams_nonempty canvas_point_def placed_def np_identity3_def np_div_def)
  have w: "warpPerspective_identity ?comp (3, 2) = Inr ?comp"
    by (simp add: warpPerspective_identity_def upt_rec numeral_2_eq_2 numeral_3_eq_3)
  show ?thesis
    by (simp add: blendImages_def g p n d w) (simp add: sample_img_def)
qed

text \<open>
  C1, amended: for one H x W image with three 8-bit channels, H and W from 2 to 32767,
  placed by the identity, and 0 < blendWidth <= 10^8, blendImages with is360=false
  returns a mosaic of height H - 1 and width W - 1 with four channels. The pixels of
  column 0, whose weight is 0, are (0, 0, 0, 255). In a column x >= 1 the fourth channel
  is 255 and every colour channel is the value p of the input pixel at the same
  position, or p - 1; it is p in the columns whose weight is 1, those with
  blendWidth <= x <= W - 1 - blendWidth.

  The proof shows that with exact quotients every colour in a column x >= 1 is p. The
  statement keeps of this what the float64 arithmetic of the source keeps: where the
  weight w is 1, (p / 255 * w) / w * 255 is computed as p; where it is not, the rounded
  result can fall just below p, and the truncation to 8 bits then gives p - 1. The upper
  bounds on H and W are sizes for which the float32 corners of imageBoundingBox are the
  exact ones and cv2.warpPerspective accepts the canvas.
\<close>

theorem blendImages_single_identity:
  assumes wf: "wf_arr (img i)" and sh: "shape (img i) = (H, W, 3)"
    and pos: "position i = np_identity3"
    and H: "2 \<le> H" and W: "2 \<le> W"
    and HW: "H \<le> 32767" "W \<le> 32767"
    and b: "0 < blendWidth" "blendWidth \<le> 10 ^ 8"
    and u8: "uint8_img (img i)"
  shows "\<exists>out. blendImages [i] blendWidth False = Inr out \<and> shape out = (H - 1, W - 1, 4) \<and>
           (\<forall>y<H - 1. \<forall>x<W - 1.
              length (cells out ! y ! x) = 4 \<and> cells out ! y ! x ! 3 = 255 \<and>
              (x = 0 \<longrightarrow> cells out ! y ! x = [0, 0, 0, 255]) \<and>
              (blendWidth \<le> int x \<and> int x \<le> int (W - 1) - blendWidth \<longrightarrow>
                 cells out ! y ! x = cells (img i) ! y ! x @ [255]) \<and>
              (0 < x \<longrightarrow>
                 (\<forall>c<3. cells out ! y ! x ! c = cells (img i) ! y ! x ! c \<or>
                        cells out ! y ! x ! c = cells (img i) ! y ! x ! c - 1)))"
proof -
  let ?H = "H - 1" and ?W = "W - 1"
  let ?wt = "\<lambda>x. rat_of_int (min (int x) (min blendWidth (int ?W - int x))) / rat_of_int blendWidth"
  let ?g = "\<lambda>y x. map (\<lambda>v. rat_of_int v / 255 * ?wt x) (cells (img i) ! y ! x) @ [?wt x]"
  let ?acc = "(zeros_acc ?H ?W 4)\<lparr>cells := map (\<lambda>y. map (?g y) [0..<?W]) [0..<?H]\<rparr>"
  let ?f = "\<lambda>cell. map (\<lambda>v. astype_uint8 (v * 255)) (normalize_cell cell)"
  let ?comp = "\<lparr>shape = (?H, ?W, 4), cells = map (map ?f) (cells ?acc)\<rparr>"
  have iH: "int H - 1 = int ?H" and iW: "int W - 1 = int ?W" using H W by simp_all
  have H1: "1 \<le> H" and W1: "1 \<le> W" using H W by simp_all
  have g0: "getAccSize [i] = (int W - 1, int H - 1, int 3, int W, np_identity3)"
    by (rule getAccSize_single_identity [OF sh pos H1 W1])
  have g: "getAccSize [i] = (int ?W, int ?H, 3, int W, np_identity3)"
    unfolding g0 iH iW by simp
  have bz: "blendWidth \<noteq> 0" using b by simp
  have acc: "accumulateBlend (img i) (zeros_acc ?H ?W 4) np_identity3 blendWidth = Inr ?acc"
  proof (rule accumulateBlend_exact [OF wf_zeros_acc _ linalg_inv_identity])
    show "shape (zeros_acc ?H ?W 4) = (?H, ?W, 4)" by (simp add: zeros_acc_def)
    show "blend_cell (to_unit_floats (img i)) np_identity3 blendWidth ?W x y
            (cells (zeros_acc ?H ?W 4) ! y ! x) = Inr (?g y x)" if "y < ?H" "x < ?W" for y x
    proof -
      have c: "cells (zeros_acc ?H ?W 4) ! y ! x = [0, 0, 0, 0]"
        using that by (simp add: cells_zeros_acc numeral_eq_Suc)
      have sx: "Suc x < W" and sy: "Suc y < H" using that by simp_all
      show ?thesis unfolding c by (rule blend_cell_identity [OF wf sh sx sy bz refl])
    qed
  qed
  have paste: "pasteImages [i] np_identity3 blendWidth (int ?W) (int ?H) 3 = Inr ?acc"
    using np_zeros_nat [of ?H ?W 4] acc by (simp add: pasteImages_def pos)
  have norm: "normalizeBlend ?acc = Inr ?comp"
    by (simp add: normalizeBlend_def zeros_acc_def)
  have drift: "\<exists>d. getDriftParams [i] np_identity3 (int W) = Inr d"
    using getDriftParams_nonempty [of "[i]" np_identity3 "int W"] by simp
  have len4: "length (?f (?g y x)) = 4" if "y < ?H" "x < ?W" for y x
  proof -
    have "length (cells (img i) ! y ! x) = 3"
      using wf_arr_nth(3) [OF wf sh, of y x] that by simp
    then have "length (?g y x) = 4" by simp
    then show ?thesis using length_normalize_cell4 by simp
  qed
  have wfc: "wf_arr ?comp"
    using len4 by (simp add: wf_arr_def zeros_acc_def list_all_length)
  have warp: "warpPerspective_identity ?comp (int ?W, int ?H) = Inr ?comp"
  proof (rule warpPerspective_identity_same [OF wfc])
    show "shape ?comp = (?H, ?W, 4)" by simp
    show "0 < ?H" using H by simp
    show "0 < ?W" using W by simp
    show "0 < (4 :: nat)" by simp
  qed
  have res: "blendImages [i] blendWidth False = Inr ?comp"
    using g paste norm drift warp by (auto simp: blendImages_def)
  have cellv: "cells ?comp ! y ! x = (if x = 0 then [0, 0, 0, 255] else cells (img i) ! y ! x @ [255])"
    if y: "y < ?H" and x: "x < ?W" for y x
  proof -
    have yH: "y < H" and xW: "x < W" using y x by simp_all
    obtain r g' bl where px: "cells (img i) ! y ! x = [r, g', bl]"
      using pixel3 [OF wf sh yH xW] by blast
    have rng: "0 \<le> r \<and> r \<le> 255 \<and> 0 \<le> g' \<and> g' \<le> 255 \<and> 0 \<le> bl \<and> bl \<le> 255"
    proof -
      note l = wf_arr_nth [OF wf sh yH xW]
      have "list_all (\<lambda>v. 0 \<le> v \<and> v \<le> 255) (cells (img i) ! y ! x)"
        using u8 l yH xW by (simp add: uint8_img_def list_all_length)
      then show ?thesis by (simp add: px)
    qed
    have c: "cells ?comp ! y ! x = ?f (?g y x)" using y x by simp
    show ?thesis
    proof (cases "x = 0")
      case True
      have m0: "min (int x) (min blendWidth (int ?W - int x)) = 0" using True b x by simp
      have gz: "?g y x = [0, 0, 0, 0]" unfolding px m0 by simp
      have nb: "?f [0, 0, 0, 0] = [0, 0, 0, 255]"
        by (rule normalize_cell_black) simp_all
      have "?f (?g y x) = [0, 0, 0, 255]" unfolding gz by (rule nb)
      then show ?thesis unfolding c using True by simp
    next
      case False
      then have x0: "0 < x" by simp
      note w = hat_weight_floor [OF x0 x b]
      have gx: "?g y x = map (\<lambda>v. rat_of_int v / 255 * ?wt x) [r, g', bl] @ [?wt x]"
        unfolding px by (rule refl)
      have "?f (?g y x) = [r, g', bl, 255]"
        unfolding gx using rng by (intro normalize_touched [OF w]) simp_all
      then show ?thesis unfolding c using False by (simp add: px)
    qed
  qed
  let ?P = "\<lambda>out y x.
      length (cells out ! y ! x) = 4 \<and> cells out ! y ! x ! 3 = 255 \<and>
      (x = 0 \<longrightarrow> cells out ! y ! x = [0, 0, 0, 255]) \<and>
      (blendWidth \<le> int x \<and> int x \<le> int (W - 1) - blendWidth \<longrightarrow>
         cells out ! y ! x = cells (img i) ! y ! x @ [255]) \<and>
      (0 < x \<longrightarrow>
         (\<forall>c<3. cells out ! y ! x ! c = cells (img i) ! y ! x ! c \<or>
                cells out ! y ! x ! c = cells (img i) ! y ! x ! c - 1))"
  have cellp: "?P ?comp y x" if y: "y < ?H" and x: "x < ?W" for y x
  proof -
    have l3: "length (cells (img i) ! y ! x) = 3"
      using wf_arr_nth(3) [OF wf sh, of y x] y x by simp
    have x1: "x \<noteq> 0" if "blendWidth \<le> int x" using that b by auto
    show ?thesis
      unfolding cellv [OF y x] using l3 x1 by (auto simp: nth_append)
  qed
  show ?thesis
  proof (intro exI [of _ ?comp] conjI)
    show "blendImages [i] blendWidth False = Inr ?comp" by (rule res)
    show "shape ?comp = (H - 1, W - 1, 4)" by simp
    show "\<forall>y<H - 1. \<forall>x<W - 1. ?P ?comp y x" using cellp by blast
  qed
qed

theorem blendImages_single_identity_witness:
  "\<exists>out. blendImages [placed sample_img np_identity3] 1 False = Inr out \<and> shape out = (2, 3, 4) \<and>
      cells out ! 1 ! 2 = [71, 81, 91, 255] \<and> cells out ! 1 ! 0 = [0, 0, 0, 255]"
proof -
  have h: "wf_arr (img (placed sample_img np_identity3))"
    "shape (img (placed sample_img np_identity3)) = (3, 4, 3)"
    "position (placed sample_img np_identity3) = np_identity3"
    "uint8_img (img (placed sample_img np_identity3))"
    by (simp_all add: placed_def sample_img_def wf_arr_def uint8_img_def)
  from blendImages_single_identity [OF h(1,2,3) _ _ _ _ _ _ h(4), of 1]
  obtain out where o: "blendImages [placed sample_img np_identity3] 1 False = Inr out"
    "shape out = (2, 3, 4)"
    "\<forall>y<2. \<forall>x<3.
       length (cells out ! y ! x) = 4 \<and> cells out ! y ! x ! 3 = 255 \<and>
       (x = 0 \<longrightarrow> cells out ! y ! x = [0, 0, 0, 255]) \<and>
       (1 \<le> int x \<and> int x \<le> 3 - 1 \<longrightarrow>
          cells out ! y ! x = cells (img (placed sample_img np_identity3)) ! y ! x @ [255]) \<and>
       (0 < x \<longrightarrow>
          (\<forall>c<3. cells out ! y ! x ! c = cells (img (placed sample_img np_identity3)) ! y ! x ! c \<or>
                 cells out ! y ! x ! c = cells (img (placed sample_img np_identity3)) ! y ! x ! c - 1))"
    by auto
  have "cells out ! 1 ! 2 = cells (img (placed sample_img np_identity3)) ! 1 ! 2 @ [255]"
    using o(3) [rule_format, of 1 2] by simp
  moreover have "cells out ! 1 ! 0 = [0, 0, 0, 255]"
    using o(3) [rule_format, of 1 0] by simp
  ultimately show ?thesis using o(1,2)
    by (intro exI [of _ out]) (simp add: placed_def sample_img_def)
qed

end
